theory Spec2Isabelle
  imports Main
begin

section \<open>Data model of disk\_scheduler.c\<close>

text \<open>
  Pointers are addresses; the null pointer is \<open>None\<close>.  Objects of each struct type live
  in a store of their own (a total function from addresses), so that the pointer updates
  of the linked list are updates of the store.  C \<open>int\<close> values are modelled as \<open>int\<close>:
  for block numbers and a cursor inside \<open>[0, nblocks)\<close> the code computes only values
  between \<open>- nblocks\<close> and \<open>2 * nblocks\<close>, and signed overflow (undefined in C) is not
  modelled.
\<close>

type_synonym addr = nat

definition REQUEST_READ :: int where
  "REQUEST_READ = 0"

definition REQUEST_WRITE :: int where
  "REQUEST_WRITE = 1"

text \<open>
  \<open>struct request\<close>.  The two data pointers are addresses of caller buffers; a field the
  code leaves unset is \<open>None\<close>.
\<close>

record request =
  read_write :: int
  block1 :: int
  wdata :: "addr option"
  rdata :: "addr option"

text \<open>\<open>struct linked\<close> (\<open>req\<close>): a node of the doubly linked list of requests.\<close>

record linked =
  val :: addr
  "next" :: "addr option"
  prev :: "addr option"

text \<open>
  Modelled from the spec: \<open>disk_scheduler.h\<close> is not among the sources; the scheduling
  mode is one of FIFO, SSTF and SCAN.
\<close>

datatype disk_scheduler_mode_t =
  DISK_SCHEDULER_MODE_FIFO | DISK_SCHEDULER_MODE_SSTF | DISK_SCHEDULER_MODE_SCAN

text \<open>
  Modelled from the spec: the disk module (\<open>disk.h\<close>) is not among the sources; the
  scheduler uses a disk only through its block count here, so a disk is represented by
  the number of blocks \<open>disk_nblocks\<close> reports.
\<close>

record disk =
  nblocks :: int

definition disk_nblocks :: "disk \<Rightarrow> int" where
  "disk_nblocks d = nblocks d"

text \<open>\<open>struct disk_scheduler\<close>.\<close>

record disk_scheduler =
  disk :: disk
  mode :: disk_scheduler_mode_t
  head :: "addr option"
  tail :: "addr option"

text \<open>
  The state of the process: the two globals \<open>nextblock\<close> and \<open>nextdir\<close> (line 36), the set
  of addresses handed out by \<open>malloc\<close> and not yet freed, and the stores.
\<close>

record state =
  nextblock :: int
  nextdir :: int
  allocated :: "addr set"
  schedulers :: "addr \<Rightarrow> disk_scheduler"
  requests :: "addr \<Rightarrow> request"
  links :: "addr \<Rightarrow> linked"

text \<open>The state at program start: \<open>int nextblock = 0, nextdir = 1;\<close> and nothing allocated.\<close>

definition initial_state :: state where
  "initial_state =
     \<lparr> nextblock = 0, nextdir = 1, allocated = {},
       schedulers = (\<lambda>_. \<lparr> disk = \<lparr> nblocks = 0 \<rparr>, mode = DISK_SCHEDULER_MODE_FIFO,
                             head = None, tail = None \<rparr>),
       requests = (\<lambda>_. \<lparr> read_write = 0, block1 = 0, wdata = None, rdata = None \<rparr>),
       links = (\<lambda>_. \<lparr> val = 0, next = None, prev = None \<rparr>) \<rparr>"

text \<open>
  \<open>Exit1\<close> is \<open>exit(1)\<close> after a failed \<open>malloc\<close>; \<open>NullDeref\<close> is a dereference of the
  null pointer.
\<close>

datatype error = Exit1 | NullDeref

section \<open>Operations\<close>

text \<open>
  \<open>disk_scheduler_create\<close>.  The outcome \<open>m\<close> of \<open>malloc\<close> (an address, or \<open>None\<close> for a
  null result) is a parameter, and so is the function \<open>disk_create\<close> of the disk module,
  which is not among the sources.  The result is the returned pointer and the new state.
\<close>

definition disk_scheduler_create ::
  "addr option \<Rightarrow> (string \<Rightarrow> int \<Rightarrow> disk option) \<Rightarrow> string \<Rightarrow> int \<Rightarrow>
   disk_scheduler_mode_t \<Rightarrow> state \<Rightarrow> addr option \<times> state" where
  "disk_scheduler_create m disk_create filename n md st =
     (case m of
        None \<Rightarrow> (None, st)
      | Some s \<Rightarrow>
          let st1 = st\<lparr>allocated := insert s (allocated st)\<rparr> in
          (case disk_create filename n of
             None \<Rightarrow> (None, st1\<lparr>allocated := allocated st1 - {s}\<rparr>)
           | Some dk \<Rightarrow>
               (Some s,
                st1\<lparr>schedulers := (schedulers st1)
                      (s := \<lparr> disk = dk, mode = md, head = None, tail = None \<rparr>)\<rparr>)))"

definition disk_scheduler_nblocks :: "addr \<Rightarrow> state \<Rightarrow> int" where
  "disk_scheduler_nblocks s st = disk_nblocks (disk (schedulers st s))"

text \<open>
  Lines 114 to 126 (and 173 to 185): the node \<open>cur\<close> is filled and appended to the list of
  scheduler \<open>s\<close>.
\<close>

definition append_node :: "addr \<Rightarrow> addr \<Rightarrow> addr \<Rightarrow> state \<Rightarrow> error + state" where
  "append_node s cur req1 st =
     (let st1 = st\<lparr>links := (links st)(cur := \<lparr> val = req1, next = None, prev = None \<rparr>)\<rparr> in
      case head (schedulers st1 s) of
        None \<Rightarrow>
          Inr (st1\<lparr>schedulers := (schedulers st1)
                (s := (schedulers st1 s)\<lparr>head := Some cur, tail := Some cur\<rparr>)\<rparr>)
      | Some _ \<Rightarrow>
          (case tail (schedulers st1 s) of
             None \<Rightarrow> Inl NullDeref
           | Some t \<Rightarrow>
               let st2 = st1\<lparr>links := (links st1)(t := (links st1 t)\<lparr>next := Some cur\<rparr>)\<rparr>;
                   st3 = st2\<lparr>links := (links st2)(cur := (links st2 cur)\<lparr>prev := Some t\<rparr>)\<rparr>
               in Inr (st3\<lparr>schedulers := (schedulers st3)
                        (s := (schedulers st3 s)\<lparr>tail := Some cur\<rparr>)\<rparr>)))"

text \<open>
  \<open>disk_scheduler_write\<close> and \<open>disk_scheduler_read\<close>, from the allocation of the request to
  the point where the caller starts to wait (lines 97 to 126 and 156 to 185).  The results
  of the two calls of \<open>malloc\<close> are the parameters \<open>m1\<close> and \<open>m2\<close>; \<open>data\<close> is the address
  of the caller's buffer.  The calls of the pthread library around these lines are not
  part of the model.
\<close>

definition disk_scheduler_write ::
  "addr option \<Rightarrow> addr option \<Rightarrow> addr \<Rightarrow> int \<Rightarrow> addr \<Rightarrow> state \<Rightarrow> error + state" where
  "disk_scheduler_write m1 m2 s block data st =
     (case m1 of
        None \<Rightarrow> Inl Exit1
      | Some req1 \<Rightarrow>
          let st1 = st\<lparr>allocated := insert req1 (allocated st),
                       requests := (requests st)
                         (req1 := \<lparr> read_write = REQUEST_WRITE, block1 = block,
                                    wdata = Some data, rdata = None \<rparr>)\<rparr>
          in (case m2 of
                None \<Rightarrow> Inl Exit1
              | Some cur \<Rightarrow>
                  append_node s cur req1 (st1\<lparr>allocated := insert cur (allocated st1)\<rparr>)))"

definition disk_scheduler_read ::
  "addr option \<Rightarrow> addr option \<Rightarrow> addr \<Rightarrow> int \<Rightarrow> addr \<Rightarrow> state \<Rightarrow> error + state" where
  "disk_scheduler_read m1 m2 s block data st =
     (case m1 of
        None \<Rightarrow> Inl Exit1
      | Some req1 \<Rightarrow>
          let st1 = st\<lparr>allocated := insert req1 (allocated st),
                       requests := (requests st)
                         (req1 := \<lparr> read_write = REQUEST_READ, block1 = block,
                                    wdata = None, rdata = Some data \<rparr>)\<rparr>
          in (case m2 of
                None \<Rightarrow> Inl Exit1
              | Some cur \<Rightarrow>
                  append_node s cur req1 (st1\<lparr>allocated := insert cur (allocated st1)\<rparr>)))"

text \<open>\<open>curr->val->block1\<close>.\<close>

definition node_block :: "state \<Rightarrow> addr \<Rightarrow> int" where
  "node_block st cur = block1 (requests st (val (links st cur)))"

text \<open>
  The loop of the SSTF branch (lines 236 to 246).  The loop changes the local \<open>curr\<close> and
  the global \<open>nextdir\<close>, which are its arguments \<open>cur\<close> and \<open>nd\<close>; the rest of the state is
  only read.  \<open>h\<close> is the value of \<open>s->head\<close>, which is not null when the loop is entered
  (line 216) and which the loop does not change.  A run that never leaves the loop has
  the value \<open>None\<close>.
\<close>

partial_function (option) sstf_loop ::
  "addr \<Rightarrow> state \<Rightarrow> addr \<Rightarrow> addr \<Rightarrow> int \<Rightarrow> (addr \<times> int) option" where
  "sstf_loop s st h cur nd =
     (if node_block st cur \<noteq> nextblock st + nd \<and> node_block st cur \<noteq> nextblock st - nd
      then (case next (links st cur) of
              Some c \<Rightarrow> sstf_loop s st h c nd
            | None \<Rightarrow>
                sstf_loop s st h h
                  (if nd + 1 \<ge> disk_scheduler_nblocks s st - 1 then 0 else nd + 1))
      else Some (cur, nd))"

declare sstf_loop.simps [code]

text \<open>
  Lines 258 to 266: one step of the SCAN sweep on the pair of \<open>nextblock\<close> and \<open>nextdir\<close>,
  for a disk of \<open>n\<close> blocks.
\<close>

definition scan_advance :: "int \<Rightarrow> int \<times> int \<Rightarrow> int \<times> int" where
  "scan_advance n c =
     (let c1 = (fst c + snd c, snd c);
          c2 = (if fst c1 > n - 1 then (fst c1 - 1, -1) else c1);
          c3 = (if fst c2 < 0 then (fst c2 + 1, 1) else c2)
      in c3)"

text \<open>
  The loop of the SCAN branch (lines 254 to 268), on the local \<open>curr\<close> and the pair \<open>c\<close> of
  the globals \<open>nextblock\<close> and \<open>nextdir\<close>.
\<close>

partial_function (option) scan_loop ::
  "addr \<Rightarrow> state \<Rightarrow> addr \<Rightarrow> addr \<Rightarrow> int \<times> int \<Rightarrow> (addr \<times> int \<times> int) option" where
  "scan_loop s st h cur c =
     (if node_block st cur \<noteq> fst c
      then (case next (links st cur) of
              Some c' \<Rightarrow> scan_loop s st h c' c
            | None \<Rightarrow> scan_loop s st h h (scan_advance (disk_scheduler_nblocks s st) c))
      else Some (cur, c))"

declare scan_loop.simps [code]

text \<open>
  Lines 223 to 269: the node picked for scheduler \<open>s\<close> whose list starts at \<open>h\<close>, and the
  state with the globals as the branch leaves them.
\<close>

definition pick_request :: "addr \<Rightarrow> addr \<Rightarrow> state \<Rightarrow> (addr \<times> state) option" where
  "pick_request s h st =
     (case mode (schedulers st s) of
        DISK_SCHEDULER_MODE_FIFO \<Rightarrow> Some (h, st)
      | DISK_SCHEDULER_MODE_SSTF \<Rightarrow>
          (case sstf_loop s st h h 0 of
             None \<Rightarrow> None
           | Some (cur, nd) \<Rightarrow>
               Some (cur, st\<lparr>nextdir := nd, nextblock := node_block st cur\<rparr>))
      | DISK_SCHEDULER_MODE_SCAN \<Rightarrow>
          (case scan_loop s st h h (nextblock st, nextdir st) of
             None \<Rightarrow> None
           | Some (cur, c) \<Rightarrow> Some (cur, st\<lparr>nextblock := fst c, nextdir := snd c\<rparr>)))"

text \<open>Lines 272 to 283: the node \<open>cur\<close> is taken out of the list of scheduler \<open>s\<close>.\<close>

definition remove_request :: "addr \<Rightarrow> addr \<Rightarrow> state \<Rightarrow> state" where
  "remove_request s cur st =
     (let st1 = (case prev (links st cur) of
                   Some p \<Rightarrow>
                     st\<lparr>links := (links st)(p := (links st p)\<lparr>next := next (links st cur)\<rparr>)\<rparr>
                 | None \<Rightarrow> st);
          st2 = (case next (links st1 cur) of
                   Some n \<Rightarrow>
                     st1\<lparr>links := (links st1)(n := (links st1 n)\<lparr>prev := prev (links st1 cur)\<rparr>)\<rparr>
                 | None \<Rightarrow> st1);
          st3 = (if Some cur = head (schedulers st2 s)
                 then st2\<lparr>schedulers := (schedulers st2)
                        (s := (schedulers st2 s)\<lparr>head := next (links st2 cur)\<rparr>)\<rparr>
                 else st2);
          st4 = (if Some cur = tail (schedulers st3 s)
                 then st3\<lparr>schedulers := (schedulers st3)
                        (s := (schedulers st3 s)\<lparr>tail := prev (links st3 cur)\<rparr>)\<rparr>
                 else st3)
      in st4)"

text \<open>
  One round of the loop of \<open>disk_scheduler_run\<close>, from the wait for a request to
  \<open>free(curr)\<close>.  With an empty list the thread waits (\<open>Waiting\<close>); otherwise a node is
  picked, unlinked and freed, and the round ends with that node and the new state
  (\<open>Serviced\<close>).  The calls of the disk module and of the pthread library are not part of
  the model.
\<close>

datatype run_result = Waiting | Serviced addr state

definition disk_scheduler_run :: "addr \<Rightarrow> state \<Rightarrow> run_result option" where
  "disk_scheduler_run s st =
     (case head (schedulers st s) of
        None \<Rightarrow> Some Waiting
      | Some h \<Rightarrow>
          (case pick_request s h st of
             None \<Rightarrow> None
           | Some (cur, st1) \<Rightarrow>
               let st2 = remove_request s cur st1
               in Some (Serviced cur (st2\<lparr>allocated := allocated st2 - {cur}\<rparr>))))"


section \<open>The list a scheduler holds\<close>

text \<open>
  \<open>path L p f xs\<close>: following \<open>next\<close> from the pointer \<open>f\<close> visits the nodes \<open>xs\<close> in this
  order, and each node points back to its predecessor, the first one to \<open>p\<close>.
\<close>

fun path :: "(addr \<Rightarrow> linked) \<Rightarrow> addr option \<Rightarrow> addr option \<Rightarrow> addr list \<Rightarrow> bool" where
  "path L p f [] = True"
| "path L p f (a # as) = (f = Some a \<and> prev (L a) = p \<and> path L (Some a) (next (L a)) as)"

text \<open>
  \<open>queue st s xs\<close>: in state \<open>st\<close> the list of scheduler \<open>s\<close> consists of the nodes \<open>xs\<close>,
  from \<open>s->head\<close> to \<open>s->tail\<close>, no node twice.
\<close>

definition queue :: "state \<Rightarrow> addr \<Rightarrow> addr list \<Rightarrow> bool" where
  "queue st s xs =
     (distinct xs \<and> path (links st) None (head (schedulers st s)) xs \<and>
      (if xs = [] then head (schedulers st s) = None \<and> tail (schedulers st s) = None
       else next (links st (last xs)) = None \<and> tail (schedulers st s) = Some (last xs)))"

section \<open>Drivers for the examples\<close>

text \<open>
  \<open>writes s ws st\<close> issues one \<open>disk_scheduler_write\<close> on scheduler \<open>s\<close> for each entry of
  \<open>ws\<close> in turn; an entry gives the two addresses \<open>malloc\<close> returns and the block.
\<close>

fun writes :: "addr \<Rightarrow> (addr \<times> addr \<times> int) list \<Rightarrow> state \<Rightarrow> error + state" where
  "writes s [] st = Inr st"
| "writes s ((r, c, b) # ws) st =
     (case disk_scheduler_write (Some r) (Some c) s b 0 st of
        Inl e \<Rightarrow> Inl e
      | Inr st' \<Rightarrow> writes s ws st')"

text \<open>
  \<open>service n s st\<close> runs up to \<open>n\<close> rounds of \<open>disk_scheduler_run\<close> on scheduler \<open>s\<close> and lists,
  for each round, the block of the serviced request and the values of \<open>nextblock\<close> and
  \<open>nextdir\<close> after the round.  It stops early when the scheduler has to wait.
\<close>

fun service :: "nat \<Rightarrow> addr \<Rightarrow> state \<Rightarrow> (int \<times> int \<times> int) list option" where
  "service 0 s st = Some []"
| "service (Suc n) s st =
     (case disk_scheduler_run s st of
        None \<Rightarrow> None
      | Some Waiting \<Rightarrow> Some []
      | Some (Serviced cur st') \<Rightarrow>
          map_option ((#) (node_block st' cur, nextblock st', nextdir st')) (service n s st'))"

text \<open>
  Modelled from the spec: a \<open>disk_create\<close> that succeeds, with a disk of the number of
  blocks asked for.
\<close>

definition disk_create_ok :: "string \<Rightarrow> int \<Rightarrow> disk option" where
  "disk_create_ok filename n = Some \<lparr> nblocks = n \<rparr>"

text \<open>
  A scheduler at address 100 for a disk of \<open>n\<close> blocks, created at program start, with the
  requests \<open>bs\<close> written to it; the nodes get the addresses 2, 4, ... and the requests the
  addresses 1, 3, ...
\<close>

fun fresh_pairs :: "nat \<Rightarrow> int list \<Rightarrow> (addr \<times> addr \<times> int) list" where
  "fresh_pairs k [] = []"
| "fresh_pairs k (b # bs) = (Suc k, Suc (Suc k), b) # fresh_pairs (Suc (Suc k)) bs"

definition example :: "disk_scheduler_mode_t \<Rightarrow> int \<Rightarrow> int \<times> int \<Rightarrow> int list \<Rightarrow> error + state" where
  "example md n c bs =
     (let st = snd (disk_scheduler_create (Some 100) disk_create_ok ''disk'' n md initial_state)
      in writes 100 (fresh_pairs 0 bs) (st\<lparr>nextblock := fst c, nextdir := snd c\<rparr>))"

text \<open>The first \<open>k\<close> rounds of the scheduler thread on that example.\<close>

definition example_order ::
  "disk_scheduler_mode_t \<Rightarrow> int \<Rightarrow> int \<times> int \<Rightarrow> int list \<Rightarrow> nat \<Rightarrow>
   error + (int \<times> int \<times> int) list option" where
  "example_order md n c bs k =
     (case example md n c bs of
        Inl e \<Rightarrow> Inl e
      | Inr st \<Rightarrow> Inr (service k 100 st))"

text \<open>\<open>after_rounds n s st\<close> is the state after those rounds.\<close>

fun after_rounds :: "nat \<Rightarrow> addr \<Rightarrow> state \<Rightarrow> state option" where
  "after_rounds 0 s st = Some st"
| "after_rounds (Suc n) s st =
     (case disk_scheduler_run s st of
        None \<Rightarrow> None
      | Some Waiting \<Rightarrow> Some st
      | Some (Serviced cur st') \<Rightarrow> after_rounds n s st')"

text \<open>
  Two schedulers for disks of 16 blocks, created at program start: the one at address
  100 has mode \<open>md1\<close> and gets write requests for the blocks \<open>bs1\<close>, the one at address 200
  has mode \<open>md2\<close> and gets write requests for the blocks \<open>bs2\<close>.
\<close>

definition two_schedulers_state ::
  "disk_scheduler_mode_t \<Rightarrow> int list \<Rightarrow> disk_scheduler_mode_t \<Rightarrow> int list \<Rightarrow> error + state" where
  "two_schedulers_state md1 bs1 md2 bs2 =
     (let st1 = snd (disk_scheduler_create (Some 100) disk_create_ok ''disk1'' 16 md1 initial_state);
          st2 = snd (disk_scheduler_create (Some 200) disk_create_ok ''disk2'' 16 md2 st1)
      in case writes 100 (fresh_pairs 0 bs1) st2 of
           Inl e \<Rightarrow> Inl e
         | Inr st3 \<Rightarrow> writes 200 (fresh_pairs (2 * length bs1) bs2) st3)"

text \<open>
  From that state the first scheduler runs \<open>j\<close> rounds and after them the second one \<open>k\<close>
  rounds.  The result is the pair of the two service orders.
\<close>

definition two_schedulers ::
  "disk_scheduler_mode_t \<Rightarrow> int list \<Rightarrow> disk_scheduler_mode_t \<Rightarrow> int list \<Rightarrow> nat \<Rightarrow> nat \<Rightarrow>
   error + ((int \<times> int \<times> int) list option \<times> (int \<times> int \<times> int) list option)" where
  "two_schedulers md1 bs1 md2 bs2 j k =
     (case two_schedulers_state md1 bs1 md2 bs2 of
        Inl e \<Rightarrow> Inl e
      | Inr st \<Rightarrow>
          Inr (service j 100 st,
               case after_rounds j 100 st of
                 None \<Rightarrow> None
               | Some st' \<Rightarrow> service k 200 st'))"

section \<open>The SCAN cursor\<close>

text \<open>
  \<open>scan_process s st\<close>: the state \<open>st\<close> is reached by a process that starts with the
  globals as initialised (\<open>nextblock = 0\<close>, \<open>nextdir = 1\<close>) and with \<open>s\<close> a SCAN scheduler.
  Callers enqueue requests on any scheduler, and the rounds that run are rounds of
  schedulers in FIFO mode and of schedulers in SCAN mode whose disk has at least one block
  and at most as many blocks as the disk of \<open>s\<close>, among them \<open>s\<close> itself.
\<close>

inductive scan_process :: "addr \<Rightarrow> state \<Rightarrow> bool" for s :: addr where
  at_start:
    "nextblock st = 0 \<Longrightarrow> nextdir st = 1 \<Longrightarrow>
     mode (schedulers st s) = DISK_SCHEDULER_MODE_SCAN \<Longrightarrow> scan_process s st"
| after_write:
    "scan_process s st \<Longrightarrow> disk_scheduler_write m1 m2 s' b d st = Inr st' \<Longrightarrow>
     scan_process s st'"
| after_read:
    "scan_process s st \<Longrightarrow> disk_scheduler_read m1 m2 s' b d st = Inr st' \<Longrightarrow>
     scan_process s st'"
| after_round:
    "scan_process s st \<Longrightarrow> disk_scheduler_run s' st = Some (Serviced c st') \<Longrightarrow>
     mode (schedulers st s') = DISK_SCHEDULER_MODE_FIFO \<or>
     mode (schedulers st s') = DISK_SCHEDULER_MODE_SCAN \<and>
     1 \<le> disk_scheduler_nblocks s' st \<and>
     disk_scheduler_nblocks s' st \<le> disk_scheduler_nblocks s st \<Longrightarrow>
     scan_process s st'"

code_pred scan_process .

text \<open>
  \<open>cursor_ok n c\<close>: the pair \<open>c\<close> of \<open>nextblock\<close> and \<open>nextdir\<close> is a position on a disk of
  \<open>n\<close> blocks and a direction of the sweep.
\<close>

definition cursor_ok :: "int \<Rightarrow> int \<times> int \<Rightarrow> bool" where
  "cursor_ok n c = (0 \<le> fst c \<and> fst c \<le> n - 1 \<and> (snd c = 1 \<or> snd c = -1))"

text \<open>The number of steps of the sweep from the cursor \<open>c\<close> to block \<open>t\<close>.\<close>

definition sweep_steps :: "int \<Rightarrow> int \<times> int \<Rightarrow> int \<Rightarrow> int" where
  "sweep_steps n c t =
     (if snd c = 1
      then (if fst c \<le> t then t - fst c else (n - 1 - fst c) + 1 + (n - 1 - t))
      else (if t \<le> fst c then fst c - t else fst c + 1 + t))"

section \<open>Lemmas on the list\<close>

lemma path_cong:
  "\<forall>a\<in>set xs. prev (L' a) = prev (L a) \<Longrightarrow> \<forall>a\<in>set (butlast xs). next (L' a) = next (L a) \<Longrightarrow>
   path L' p f xs = path L p f xs"
proof (induction xs arbitrary: p f)
  case Nil
  then show ?case by simp
next
  case (Cons a as)
  show ?case
  proof (cases as)
    case Nil
    with Cons.prems show ?thesis by simp
  next
    case (Cons b bs)
    with Cons.prems Cons.IH[of "Some a" "next (L a)"] show ?thesis by auto
  qed
qed

lemma path_append:
  "path L p f (xs @ ys) =
     (path L p f xs \<and>
      path L (if xs = [] then p else Some (last xs))
             (if xs = [] then f else next (L (last xs))) ys)"
  by (induction xs arbitrary: p f) auto

lemma path_head: "path L p f xs \<Longrightarrow> xs \<noteq> [] \<Longrightarrow> f = Some (hd xs)"
  by (cases xs) auto

lemma path_next_nth:
  "path L p f xs \<Longrightarrow> Suc i < length xs \<Longrightarrow> next (L (xs ! i)) = Some (xs ! Suc i)"
proof (induction xs arbitrary: p f i)
  case Nil
  then show ?case by simp
next
  case (Cons a as)
  show ?case
  proof (cases i)
    case 0
    with Cons.prems show ?thesis by (cases as) auto
  next
    case (Suc j)
    with Cons.prems Cons.IH[of "Some a" "next (L a)" j] show ?thesis by auto
  qed
qed

lemma queue_head: "queue st s xs \<Longrightarrow> head (schedulers st s) = (if xs = [] then None else Some (hd xs))"
  by (auto simp: queue_def dest: path_head)

lemma queue_next_nth:
  assumes "queue st s xs" "i < length xs"
  shows "next (links st (xs ! i)) = (if Suc i < length xs then Some (xs ! Suc i) else None)"
proof (cases "Suc i < length xs")
  case True
  with assms show ?thesis by (auto simp: queue_def dest: path_next_nth)
next
  case False
  with assms have "i = length xs - 1" "xs \<noteq> []" by auto
  with assms False show ?thesis by (auto simp: queue_def last_conv_nth)
qed


lemma last_notin_butlast: "distinct xs \<Longrightarrow> xs \<noteq> [] \<Longrightarrow> last xs \<notin> set (butlast xs)"
  by (induction xs) (auto dest: in_set_butlastD)

lemma remove_request_frame:
  "requests (remove_request s c st) = requests st"
  "nextblock (remove_request s c st) = nextblock st"
  "nextdir (remove_request s c st) = nextdir st"
  "allocated (remove_request s c st) = allocated st"
  "val (links (remove_request s c st) a) = val (links st a)"
  "s' \<noteq> s \<Longrightarrow> schedulers (remove_request s c st) s' = schedulers st s'"
  "mode (schedulers (remove_request s c st) s') = mode (schedulers st s')"
  "disk (schedulers (remove_request s c st) s') = disk (schedulers st s')"
  by (auto simp: remove_request_def Let_def split: option.splits)

lemma remove_request_queue:
  assumes q: "queue st s (ys @ c # zs)"
  shows "queue (remove_request s c st) s (ys @ zs)"
proof -
  let ?L = "links st"
  from q have d: "distinct ys" "distinct zs" "c \<notin> set ys" "c \<notin> set zs" "set ys \<inter> set zs = {}"
    by (auto simp: queue_def)
  from q have pc: "prev (?L c) = (if ys = [] then None else Some (last ys))"
    and py: "path ?L None (head (schedulers st s)) ys"
    and pz: "path ?L (Some c) (next (?L c)) zs"
    and hc: "(if ys = [] then head (schedulers st s) else next (?L (last ys))) = Some c"
    and tl: "tail (schedulers st s) = Some (last (c # zs))"
    and en: "next (?L (last (c # zs))) = None"
    by (auto simp: queue_def path_append split: if_splits)
  show ?thesis
  proof (cases zs)
    case Nil
    note zs = Nil
    show ?thesis
    proof (cases "ys = []")
      case True
      with zs pc pz hc tl en show ?thesis
        by (simp add: queue_def remove_request_def Let_def)
    next
      case False
      let ?p = "last ys"
      from False have pin: "?p \<in> set ys" by simp
      with d have pne: "?p \<noteq> c" by auto
      let ?L' = "?L(?p := (?L ?p)\<lparr>next := next (?L c)\<rparr>)"
      from py False have hy: "head (schedulers st s) = Some (hd ys)" by (auto dest: path_head)
      from False d have hne: "hd ys \<noteq> c" by (cases ys) auto
      have "path ?L' None (head (schedulers st s)) ys = path ?L None (head (schedulers st s)) ys"
        using d(1) False by (intro path_cong) (auto dest: last_notin_butlast)
      with zs pc pz hc tl en False pne py hy hne d show ?thesis
        by (simp add: queue_def remove_request_def Let_def)
    qed
  next
    case (Cons n zs')
    note zs = Cons
    from pz zs have nc: "next (?L c) = Some n" and pn: "path ?L (Some n) (next (?L n)) zs'"
      by auto
    from d zs have nne: "n \<noteq> c" "n \<notin> set ys" "n \<notin> set zs'" "c \<notin> set zs'" "distinct zs'"
      by auto
    from tl en zs nne have tl': "tail (schedulers st s) = Some (last (n # zs'))"
      and en': "next (?L (last (n # zs'))) = None" and tne: "last (n # zs') \<noteq> c"
      by (auto split: if_splits)
    show ?thesis
    proof (cases "ys = []")
      case True
      let ?L' = "?L(n := (?L n)\<lparr>prev := None\<rparr>)"
      have "path ?L' (Some n) (next (?L n)) zs' = path ?L (Some n) (next (?L n)) zs'"
        using nne by (intro path_cong) (auto dest: in_set_butlastD)
      moreover have "next (?L' (last (n # zs'))) = None"
        using en' by auto
      ultimately show ?thesis
        using True zs pc hc nc pn nne tl' tne d
        by (simp add: queue_def remove_request_def Let_def)
    next
      case False
      let ?p = "last ys"
      from False have pin: "?p \<in> set ys" by simp
      with d zs have pne: "?p \<noteq> c" "?p \<noteq> n" "?p \<notin> set zs'" by auto
      let ?L1 = "?L(?p := (?L ?p)\<lparr>next := Some n\<rparr>)"
      let ?L' = "?L1(n := (?L1 n)\<lparr>prev := Some ?p\<rparr>)"
      from py False have hy: "head (schedulers st s) = Some (hd ys)" by (auto dest: path_head)
      from False d have hne: "hd ys \<noteq> c" by (cases ys) auto
      have 1: "path ?L' None (head (schedulers st s)) ys = path ?L None (head (schedulers st s)) ys"
        using d(1) False nne by (intro path_cong) (auto dest: last_notin_butlast)
      have 2: "path ?L' (Some n) (next (?L n)) zs' = path ?L (Some n) (next (?L n)) zs'"
        using nne pne by (intro path_cong) (auto dest: in_set_butlastD)
      have "last (n # zs') \<noteq> ?p"
        using pne by (cases "zs' = []") (auto dest: last_in_set)
      then have 3: "next (?L' (last (n # zs'))) = None"
        using en' by (cases "zs' = []") auto
      have 4: "next (?L' n) = next (?L n)" "prev (?L' n) = Some ?p" "next (?L' ?p) = Some n"
        using pne by auto
      have 5: "links (remove_request s c st) = ?L'"
        using False pc nc pne nne by (simp add: remove_request_def Let_def)
      have 6: "head (schedulers (remove_request s c st) s) = head (schedulers st s)"
        "tail (schedulers (remove_request s c st) s) = tail (schedulers st s)"
        using False pc nc pne nne hy hne tl' tne by (simp_all add: remove_request_def Let_def)
      show ?thesis
        unfolding queue_def 5 6 path_append
        using False 1 2 3 4 py pn d nne tl' zs by simp
    qed
  qed
qed


section \<open>Lemmas on the loops\<close>

lemma queue_next_in:
  assumes "queue st s xs" "a \<in> set xs" "next (links st a) = Some b"
  shows "b \<in> set xs"
proof -
  from assms(2) obtain i where i: "i < length xs" "a = xs ! i" by (auto simp: in_set_conv_nth)
  with queue_next_nth[OF assms(1) i(1)] assms(3) show ?thesis
    by (auto split: if_splits)
qed

lemma sstf_loop_rule:
  assumes r: "sstf_loop s st h cur nd = Some y"
    and I0: "I cur nd"
    and nxt: "\<And>cur nd c. I cur nd \<Longrightarrow>
        node_block st cur \<noteq> nextblock st + nd \<and> node_block st cur \<noteq> nextblock st - nd \<Longrightarrow>
        next (links st cur) = Some c \<Longrightarrow> I c nd"
    and wrap: "\<And>cur nd. I cur nd \<Longrightarrow>
        node_block st cur \<noteq> nextblock st + nd \<and> node_block st cur \<noteq> nextblock st - nd \<Longrightarrow>
        next (links st cur) = None \<Longrightarrow>
        I h (if nd + 1 \<ge> disk_scheduler_nblocks s st - 1 then 0 else nd + 1)"
  shows "I (fst y) (snd y) \<and>
         (node_block st (fst y) = nextblock st + snd y \<or> node_block st (fst y) = nextblock st - snd y)"
proof -
  let ?P = "\<lambda>s' st' h' cur nd y. s' = s \<and> st' = st \<and> h' = h \<and> I cur nd \<longrightarrow>
        I (fst y) (snd y) \<and>
         (node_block st (fst y) = nextblock st + snd y \<or> node_block st (fst y) = nextblock st - snd y)"
  have "?P s st h cur nd y"
  proof (rule sstf_loop.raw_induct[where P = ?P, OF _ r], intro impI, elim conjE)
    fix f s' st' h' cur nd y
    assume IH: "\<And>s' st' h' cur nd y. f s' st' h' cur nd = Some y \<Longrightarrow> ?P s' st' h' cur nd y"
      and eq: "(if node_block st' cur \<noteq> nextblock st' + nd \<and> node_block st' cur \<noteq> nextblock st' - nd
      then (case next (links st' cur) of
              None \<Rightarrow> f s' st' h' h' (if disk_scheduler_nblocks s' st' - 1 \<le> nd + 1 then 0 else nd + 1)
            | Some c \<Rightarrow> f s' st' h' c nd)
      else Some (cur, nd)) = Some y"
      and e: "s' = s" "st' = st" "h' = h" and i: "I cur nd"
    show "I (fst y) (snd y) \<and>
         (node_block st (fst y) = nextblock st + snd y \<or> node_block st (fst y) = nextblock st - snd y)"
    proof (cases "node_block st cur \<noteq> nextblock st + nd \<and> node_block st cur \<noteq> nextblock st - nd")
      case False
      with eq e i show ?thesis by auto
    next
      case True
      show ?thesis
      proof (cases "next (links st cur)")
        case None
        with True eq e
        have "f s st h h (if disk_scheduler_nblocks s st - 1 \<le> nd + 1 then 0 else nd + 1) = Some y"
          by simp
        from IH[OF this] wrap[OF i True None] show ?thesis by simp
      next
        case (Some c)
        with True eq e have "f s st h c nd = Some y" by simp
        from IH[OF this] nxt[OF i True Some] show ?thesis by simp
      qed
    qed
  qed
  with I0 show ?thesis by simp
qed

lemma scan_loop_rule:
  assumes r: "scan_loop s st h cur c = Some y"
    and I0: "I cur c"
    and nxt: "\<And>cur c c'. I cur c \<Longrightarrow> node_block st cur \<noteq> fst c \<Longrightarrow>
        next (links st cur) = Some c' \<Longrightarrow> I c' c"
    and wrap: "\<And>cur c. I cur c \<Longrightarrow> node_block st cur \<noteq> fst c \<Longrightarrow>
        next (links st cur) = None \<Longrightarrow> I h (scan_advance (disk_scheduler_nblocks s st) c)"
  shows "I (fst y) (snd y) \<and> node_block st (fst y) = fst (snd y)"
proof -
  let ?P = "\<lambda>s' st' h' cur c y. s' = s \<and> st' = st \<and> h' = h \<and> I cur c \<longrightarrow>
        I (fst y) (snd y) \<and> node_block st (fst y) = fst (snd y)"
  have "?P s st h cur c y"
  proof (rule scan_loop.raw_induct[where P = ?P, OF _ r], intro impI, elim conjE)
    fix f s' st' h' cur c y
    assume IH: "\<And>s' st' h' cur c y. f s' st' h' cur c = Some y \<Longrightarrow> ?P s' st' h' cur c y"
      and eq: "(if node_block st' cur \<noteq> fst c
      then (case next (links st' cur) of
              None \<Rightarrow> f s' st' h' h' (scan_advance (disk_scheduler_nblocks s' st') c)
            | Some c' \<Rightarrow> f s' st' h' c' c)
      else Some (cur, c)) = Some y"
      and e: "s' = s" "st' = st" "h' = h" and i: "I cur c"
    show "I (fst y) (snd y) \<and> node_block st (fst y) = fst (snd y)"
    proof (cases "node_block st cur \<noteq> fst c")
      case False
      with eq e i show ?thesis by auto
    next
      case True
      show ?thesis
      proof (cases "next (links st cur)")
        case None
        with True eq e
        have "f s st h h (scan_advance (disk_scheduler_nblocks s st) c) = Some y"
          by simp
        from IH[OF this] wrap[OF i True None] show ?thesis by simp
      next
        case (Some c')
        with True eq e have "f s st h c' c = Some y" by simp
        from IH[OF this] nxt[OF i True Some] show ?thesis by simp
      qed
    qed
  qed
  with I0 show ?thesis by simp
qed


lemma sstf_loop_nth:
  assumes "queue st s xs" "i < length xs"
  shows "sstf_loop s st (hd xs) (xs ! i) nd =
     (if node_block st (xs ! i) \<noteq> nextblock st + nd \<and> node_block st (xs ! i) \<noteq> nextblock st - nd
      then (if Suc i < length xs then sstf_loop s st (hd xs) (xs ! Suc i) nd
            else sstf_loop s st (hd xs) (hd xs)
                   (if nd + 1 \<ge> disk_scheduler_nblocks s st - 1 then 0 else nd + 1))
      else Some (xs ! i, nd))"
  by (subst sstf_loop.simps) (simp add: queue_next_nth[OF assms])

lemma sstf_pass_skip:
  assumes q: "queue st s xs"
    and no: "\<forall>k. i \<le> k \<and> k < length xs \<longrightarrow>
               node_block st (xs ! k) \<noteq> nextblock st + nd \<and> node_block st (xs ! k) \<noteq> nextblock st - nd"
    and i: "i < length xs"
  shows "sstf_loop s st (hd xs) (xs ! i) nd =
         sstf_loop s st (hd xs) (hd xs)
           (if nd + 1 \<ge> disk_scheduler_nblocks s st - 1 then 0 else nd + 1)"
  using no i
proof (induction "length xs - i" arbitrary: i)
  case 0
  then show ?case by simp
next
  case (Suc m)
  show ?case
  proof (cases "Suc i < length xs")
    case True
    have "sstf_loop s st (hd xs) (xs ! i) nd = sstf_loop s st (hd xs) (xs ! Suc i) nd"
      using Suc.prems True by (subst sstf_loop_nth[OF q]) auto
    also have "\<dots> = sstf_loop s st (hd xs) (hd xs)
           (if nd + 1 \<ge> disk_scheduler_nblocks s st - 1 then 0 else nd + 1)"
      using Suc.hyps(2) Suc.prems True by (intro Suc.hyps(1)) auto
    finally show ?thesis .
  next
    case False
    then show ?thesis
      using Suc.prems by (subst sstf_loop_nth[OF q]) auto
  qed
qed

lemma sstf_pass_find:
  assumes q: "queue st s xs"
    and j: "j < length xs"
    and m: "node_block st (xs ! j) = nextblock st + nd \<or> node_block st (xs ! j) = nextblock st - nd"
    and no: "\<forall>k. i \<le> k \<and> k < j \<longrightarrow>
               node_block st (xs ! k) \<noteq> nextblock st + nd \<and> node_block st (xs ! k) \<noteq> nextblock st - nd"
    and i: "i \<le> j"
  shows "sstf_loop s st (hd xs) (xs ! i) nd = Some (xs ! j, nd)"
  using no i
proof (induction "j - i" arbitrary: i)
  case 0
  then have "i = j" by simp
  with j m show ?case by (subst sstf_loop_nth[OF q]) auto
next
  case (Suc d)
  then have lt: "i < j" by simp
  have "sstf_loop s st (hd xs) (xs ! i) nd = sstf_loop s st (hd xs) (xs ! Suc i) nd"
    using Suc.prems lt j by (subst sstf_loop_nth[OF q]) auto
  also have "\<dots> = Some (xs ! j, nd)"
    using Suc.hyps(2) Suc.prems lt by (intro Suc.hyps(1)) auto
  finally show ?case .
qed

lemma sstf_loop_finds:
  assumes q: "queue st s xs"
    and j: "j < length xs"
    and r: "r = \<bar>node_block st (xs ! j) - nextblock st\<bar>"
    and least: "\<forall>k<length xs. r \<le> \<bar>node_block st (xs ! k) - nextblock st\<bar>"
    and first: "\<forall>k<j. \<bar>node_block st (xs ! k) - nextblock st\<bar> \<noteq> r"
    and bound: "r = 0 \<or> r \<le> disk_scheduler_nblocks s st - 2"
    and nd: "0 \<le> nd" "nd \<le> r"
  shows "sstf_loop s st (hd xs) (hd xs) nd = Some (xs ! j, r)"
proof -
  from j have h0: "hd xs = xs ! 0" by (cases xs) auto
  show ?thesis
    using nd unfolding h0
proof (induction "nat (r - nd)" arbitrary: nd)
  case 0
  then have e: "nd = r" by simp
  have "sstf_loop s st (hd xs) (xs ! 0) r = Some (xs ! j, r)"
    using j r first 0 e by (intro sstf_pass_find[OF q]) (auto simp: abs_if split: if_splits)
  with e show ?case by (simp add: h0)
next
  case (Suc d)
  then have lt: "nd < r" by simp
  have no: "\<forall>k. 0 \<le> k \<and> k < length xs \<longrightarrow>
               node_block st (xs ! k) \<noteq> nextblock st + nd \<and> node_block st (xs ! k) \<noteq> nextblock st - nd"
    using least lt Suc.prems by (fastforce simp: abs_if split: if_splits)
  have ne: "0 < length xs" using j by auto
  have nr: "\<not> nd + 1 \<ge> disk_scheduler_nblocks s st - 1"
    using lt bound Suc.prems by auto
  have "sstf_loop s st (xs ! 0) (xs ! 0) nd = sstf_loop s st (xs ! 0) (xs ! 0) (nd + 1)"
    using sstf_pass_skip[OF q no ne] unfolding h0 by (simp only: nr if_False)
  also have "\<dots> = Some (xs ! j, r)"
    using Suc.hyps(2) Suc.prems lt by (intro Suc.hyps(1)) auto
  finally show ?case .
qed
qed


lemma scan_advance_ok: "1 \<le> n \<Longrightarrow> cursor_ok n c \<Longrightarrow> cursor_ok n (scan_advance n c)"
  by (auto simp: cursor_ok_def scan_advance_def Let_def)

lemma sweep_steps_nonneg: "cursor_ok n c \<Longrightarrow> 0 \<le> t \<Longrightarrow> t \<le> n - 1 \<Longrightarrow> 0 \<le> sweep_steps n c t"
  by (auto simp: cursor_ok_def sweep_steps_def)



lemma scan_loop_nth:
  assumes "queue st s xs" "i < length xs"
  shows "scan_loop s st (hd xs) (xs ! i) c =
     (if node_block st (xs ! i) \<noteq> fst c
      then (if Suc i < length xs then scan_loop s st (hd xs) (xs ! Suc i) c
            else scan_loop s st (hd xs) (hd xs) (scan_advance (disk_scheduler_nblocks s st) c))
      else Some (xs ! i, c))"
  by (subst scan_loop.simps) (simp add: queue_next_nth[OF assms])

lemma scan_pass_skip:
  assumes q: "queue st s xs"
    and no: "\<forall>k. i \<le> k \<and> k < length xs \<longrightarrow> node_block st (xs ! k) \<noteq> fst c"
    and i: "i < length xs"
  shows "scan_loop s st (hd xs) (xs ! i) c =
         scan_loop s st (hd xs) (hd xs) (scan_advance (disk_scheduler_nblocks s st) c)"
  using no i
proof (induction "length xs - i" arbitrary: i)
  case 0
  then show ?case by simp
next
  case (Suc m)
  show ?case
  proof (cases "Suc i < length xs")
    case True
    have "scan_loop s st (hd xs) (xs ! i) c = scan_loop s st (hd xs) (xs ! Suc i) c"
      using Suc.prems True by (subst scan_loop_nth[OF q]) auto
    also have "\<dots> = scan_loop s st (hd xs) (hd xs) (scan_advance (disk_scheduler_nblocks s st) c)"
      using Suc.hyps(2) Suc.prems True by (intro Suc.hyps(1)) auto
    finally show ?thesis .
  next
    case False
    then show ?thesis
      using Suc.prems by (subst scan_loop_nth[OF q]) auto
  qed
qed

lemma scan_pass_find:
  assumes q: "queue st s xs"
    and j: "j < length xs"
    and m: "node_block st (xs ! j) = fst c"
    and no: "\<forall>k. i \<le> k \<and> k < j \<longrightarrow> node_block st (xs ! k) \<noteq> fst c"
    and i: "i \<le> j"
  shows "scan_loop s st (hd xs) (xs ! i) c = Some (xs ! j, c)"
  using no i
proof (induction "j - i" arbitrary: i)
  case 0
  then have "i = j" by simp
  with j m show ?case by (subst scan_loop_nth[OF q]) auto
next
  case (Suc d)
  then have lt: "i < j" by simp
  have "scan_loop s st (hd xs) (xs ! i) c = scan_loop s st (hd xs) (xs ! Suc i) c"
    using Suc.prems lt j by (subst scan_loop_nth[OF q]) auto
  also have "\<dots> = Some (xs ! j, c)"
    using Suc.hyps(2) Suc.prems lt by (intro Suc.hyps(1)) auto
  finally show ?case .
qed

lemma scan_loop_finds:
  assumes q: "queue st s xs"
    and j: "j < length xs"
    and m: "node_block st (xs ! j) = fst ((scan_advance (disk_scheduler_nblocks s st) ^^ k) c)"
    and first: "\<forall>i<j. node_block st (xs ! i) \<noteq> fst ((scan_advance (disk_scheduler_nblocks s st) ^^ k) c)"
    and least: "\<forall>m<k. \<forall>i<length xs.
                  node_block st (xs ! i) \<noteq> fst ((scan_advance (disk_scheduler_nblocks s st) ^^ m) c)"
  shows "scan_loop s st (hd xs) (hd xs) c =
         Some (xs ! j, (scan_advance (disk_scheduler_nblocks s st) ^^ k) c)"
proof -
  from j have h0: "hd xs = xs ! 0" and ne: "0 < length xs" by (cases xs; auto)+
  show ?thesis
    using m first least unfolding h0
  proof (induction k arbitrary: c)
    case 0
    have "scan_loop s st (hd xs) (xs ! 0) c = Some (xs ! j, c)"
      using 0 j by (intro scan_pass_find[OF q]) auto
    then show ?case by (simp add: h0)
  next
    case (Suc k)
    let ?n = "disk_scheduler_nblocks s st"
    from Suc.prems(3) have no: "\<forall>i. 0 \<le> i \<and> i < length xs \<longrightarrow> node_block st (xs ! i) \<noteq> fst c"
      by (auto dest: spec[of _ 0])
    have "scan_loop s st (xs ! 0) (xs ! 0) c = scan_loop s st (xs ! 0) (xs ! 0) (scan_advance ?n c)"
      using scan_pass_skip[OF q no ne] unfolding h0 .
    also have "\<dots> = Some (xs ! j, (scan_advance ?n ^^ k) (scan_advance ?n c))"
    proof (intro Suc.IH)
      show "node_block st (xs ! j) = fst ((scan_advance ?n ^^ k) (scan_advance ?n c))"
        using Suc.prems(1) by (simp add: funpow_swap1)
      show "\<forall>i<j. node_block st (xs ! i) \<noteq> fst ((scan_advance ?n ^^ k) (scan_advance ?n c))"
        using Suc.prems(2) by (simp add: funpow_swap1)
      show "\<forall>m<k. \<forall>i<length xs. node_block st (xs ! i) \<noteq> fst ((scan_advance ?n ^^ m) (scan_advance ?n c))"
      proof (intro allI impI)
        fix m i assume "m < k" "i < length xs"
        with Suc.prems(3) have "node_block st (xs ! i) \<noteq> fst ((scan_advance ?n ^^ Suc m) c)"
          by (metis Suc_less_eq)
        then show "node_block st (xs ! i) \<noteq> fst ((scan_advance ?n ^^ m) (scan_advance ?n c))"
          by (simp add: funpow_swap1)
      qed
    qed
    finally show ?case by (simp add: funpow_swap1)
  qed
qed



lemma scan_loop_sound:
  assumes r: "scan_loop s st h h c = Some y"
    and q: "queue st s xs" "h \<in> set xs"
  shows "fst y \<in> set xs \<and> node_block st (fst y) = fst (snd y) \<and>
         (1 \<le> disk_scheduler_nblocks s st \<longrightarrow> cursor_ok (disk_scheduler_nblocks s st) c \<longrightarrow>
            cursor_ok (disk_scheduler_nblocks s st) (snd y))"
proof -
  let ?n = "disk_scheduler_nblocks s st"
  let ?I = "\<lambda>cur c'. cur \<in> set xs \<and> (1 \<le> ?n \<longrightarrow> cursor_ok ?n c \<longrightarrow> cursor_ok ?n c')"
  have "?I (fst y) (snd y) \<and> node_block st (fst y) = fst (snd y)"
  proof (rule scan_loop_rule[where I = ?I, OF r])
    show "?I h c" using q by simp
  next
    fix cur c1 c'
    assume "?I cur c1" "node_block st cur \<noteq> fst c1" "next (links st cur) = Some c'"
    then show "?I c' c1" using queue_next_in[OF q(1)] by blast
  next
    fix cur c1
    assume "?I cur c1" "node_block st cur \<noteq> fst c1" "next (links st cur) = None"
    then show "?I h (scan_advance ?n c1)" using q scan_advance_ok by blast
  qed
  then show ?thesis by blast
qed

lemma scan_loop_never:
  assumes q: "queue st s xs" "h \<in> set xs"
    and n: "1 \<le> disk_scheduler_nblocks s st"
    and c: "cursor_ok (disk_scheduler_nblocks s st) c"
    and out: "\<forall>a\<in>set xs. node_block st a < 0 \<or> disk_scheduler_nblocks s st - 1 < node_block st a"
  shows "scan_loop s st h h c = None"
proof (cases "scan_loop s st h h c")
  case None
  then show ?thesis .
next
  case (Some y)
  from scan_loop_sound[OF Some q] n c
  have "fst y \<in> set xs" "node_block st (fst y) = fst (snd y)"
    "cursor_ok (disk_scheduler_nblocks s st) (snd y)" by auto
  with out show ?thesis by (auto simp: cursor_ok_def)
qed

lemma sstf_loop_sound:
  assumes r: "sstf_loop s st h h nd = Some y"
    and q: "queue st s xs" "h \<in> set xs"
  shows "fst y \<in> set xs \<and>
         (node_block st (fst y) = nextblock st + snd y \<or> node_block st (fst y) = nextblock st - snd y)"
proof -
  let ?I = "\<lambda>cur (nd::int). cur \<in> set xs"
  have "?I (fst y) (snd y) \<and>
         (node_block st (fst y) = nextblock st + snd y \<or> node_block st (fst y) = nextblock st - snd y)"
  proof (rule sstf_loop_rule[where I = ?I, OF r])
    show "?I h nd" using q by simp
  next
    fix cur nd c
    assume "?I cur nd" "next (links st cur) = Some c"
    then show "?I c nd" using queue_next_in[OF q(1)] by blast
  next
    show "?I h (if nd + 1 \<ge> disk_scheduler_nblocks s st - 1 then 0 else nd + 1)" for nd
      using q by simp
  qed
  then show ?thesis by blast
qed

lemma sstf_loop_never:
  assumes q: "queue st s xs" "h \<in> set xs"
    and far: "\<forall>a\<in>set xs. node_block st a \<noteq> nextblock st \<and>
                disk_scheduler_nblocks s st - 2 < \<bar>node_block st a - nextblock st\<bar>"
  shows "sstf_loop s st h h 0 = None"
proof (cases "sstf_loop s st h h 0")
  case None
  then show ?thesis .
next
  case (Some y)
  let ?n = "disk_scheduler_nblocks s st"
  let ?I = "\<lambda>cur (nd::int). cur \<in> set xs \<and> 0 \<le> nd \<and> (nd = 0 \<or> nd \<le> ?n - 2)"
  have "?I (fst y) (snd y) \<and>
         (node_block st (fst y) = nextblock st + snd y \<or> node_block st (fst y) = nextblock st - snd y)"
  proof (rule sstf_loop_rule[where I = ?I, OF Some])
    show "?I h 0" using q by simp
  next
    fix cur nd c
    assume "?I cur nd" "next (links st cur) = Some c"
    then show "?I c nd" using queue_next_in[OF q(1)] by blast
  next
    fix cur nd
    assume "?I cur nd"
    then show "?I h (if nd + 1 \<ge> ?n - 1 then 0 else nd + 1)"
      using q by auto
  qed
  with far show ?thesis by (fastforce simp: abs_if split: if_splits)
qed


section \<open>Lemmas on the operations\<close>

lemma append_node_queue:
  assumes q: "queue st s xs" and c: "c \<notin> set xs"
  shows "\<exists>st'. append_node s c r st = Inr st' \<and> queue st' s (xs @ [c]) \<and>
           val (links st' c) = r \<and> (\<forall>a. a \<noteq> c \<longrightarrow> val (links st' a) = val (links st a)) \<and>
           requests st' = requests st \<and> nextblock st' = nextblock st \<and> nextdir st' = nextdir st \<and>
           allocated st' = allocated st \<and>
           (\<forall>s'. s' \<noteq> s \<longrightarrow> schedulers st' s' = schedulers st s') \<and>
           mode (schedulers st' s) = mode (schedulers st s) \<and>
           disk (schedulers st' s) = disk (schedulers st s)"
proof (cases "xs = []")
  case True
  with q show ?thesis
    by (simp add: queue_def append_node_def)
next
  case False
  let ?L = "links st"
  let ?t = "last xs"
  from q False have hd: "head (schedulers st s) = Some (hd xs)" and tl: "tail (schedulers st s) = Some ?t"
    and en: "next (?L ?t) = None" and p: "path ?L None (head (schedulers st s)) xs" and d: "distinct xs"
    by (auto simp: queue_def dest: path_head)
  from False c have tc: "?t \<noteq> c" by (metis last_in_set)
  let ?L1 = "?L(c := \<lparr> val = r, next = None, prev = None \<rparr>)"
  let ?L2 = "?L1(?t := (?L1 ?t)\<lparr>next := Some c\<rparr>)"
  let ?L3 = "?L2(c := (?L2 c)\<lparr>prev := Some ?t\<rparr>)"
  let ?st' = "st\<lparr>links := ?L3,
                  schedulers := (schedulers st)(s := (schedulers st s)\<lparr>tail := Some c\<rparr>)\<rparr>"
  have r: "append_node s c r st = Inr ?st'"
    using hd tl by (simp add: append_node_def Let_def)
  have 1: "path ?L3 None (head (schedulers st s)) xs = path ?L None (head (schedulers st s)) xs"
    using d False c tc by (intro path_cong) (auto dest: last_notin_butlast in_set_butlastD)
  have "queue ?st' s (xs @ [c])"
    unfolding queue_def path_append using False 1 p d c tc hd by simp
  with r tc show ?thesis by simp
qed

lemma disk_scheduler_write_queue:
  assumes q: "queue st s xs" and c: "c \<notin> set xs" and r: "\<forall>a\<in>set xs. val (links st a) \<noteq> r"
  shows "\<exists>st'. disk_scheduler_write (Some r) (Some c) s b d st = Inr st' \<and> queue st' s (xs @ [c]) \<and>
           node_block st' c = b \<and> (\<forall>a\<in>set xs. node_block st' a = node_block st a) \<and>
           nextblock st' = nextblock st \<and> nextdir st' = nextdir st \<and>
           (\<forall>s'. s' \<noteq> s \<longrightarrow> schedulers st' s' = schedulers st s') \<and>
           mode (schedulers st' s) = mode (schedulers st s) \<and>
           disk (schedulers st' s) = disk (schedulers st s)"
proof -
  let ?st1 = "st\<lparr>allocated := insert r (allocated st),
                       requests := (requests st)
                         (r := \<lparr> read_write = REQUEST_WRITE, block1 = b,
                                    wdata = Some d, rdata = None \<rparr>)\<rparr>"
  let ?st2 = "?st1\<lparr>allocated := insert c (allocated ?st1)\<rparr>"
  have q2: "queue ?st2 s xs" using q by (simp add: queue_def)
  from append_node_queue[OF q2 c, of r] obtain st' where
    st': "append_node s c r ?st2 = Inr st'" "queue st' s (xs @ [c])"
       "val (links st' c) = r" "\<forall>a. a \<noteq> c \<longrightarrow> val (links st' a) = val (links ?st2 a)"
       "requests st' = requests ?st2" "nextblock st' = nextblock ?st2" "nextdir st' = nextdir ?st2"
       "\<forall>s'. s' \<noteq> s \<longrightarrow> schedulers st' s' = schedulers ?st2 s'"
       "mode (schedulers st' s) = mode (schedulers ?st2 s)"
       "disk (schedulers st' s) = disk (schedulers ?st2 s)"
    by blast
  have "disk_scheduler_write (Some r) (Some c) s b d st = Inr st'"
    using st'(1) by (simp add: disk_scheduler_write_def Let_def)
  moreover have "node_block st' c = b" using st' by (simp add: node_block_def)
  moreover have "\<forall>a\<in>set xs. node_block st' a = node_block st a"
    using st' c r by (auto simp: node_block_def)
  ultimately show ?thesis using st' by simp
qed

lemma disk_scheduler_read_queue:
  assumes q: "queue st s xs" and c: "c \<notin> set xs" and r: "\<forall>a\<in>set xs. val (links st a) \<noteq> r"
  shows "\<exists>st'. disk_scheduler_read (Some r) (Some c) s b d st = Inr st' \<and> queue st' s (xs @ [c]) \<and>
           node_block st' c = b \<and> (\<forall>a\<in>set xs. node_block st' a = node_block st a) \<and>
           nextblock st' = nextblock st \<and> nextdir st' = nextdir st \<and>
           (\<forall>s'. s' \<noteq> s \<longrightarrow> schedulers st' s' = schedulers st s') \<and>
           mode (schedulers st' s) = mode (schedulers st s) \<and>
           disk (schedulers st' s) = disk (schedulers st s)"
proof -
  let ?st1 = "st\<lparr>allocated := insert r (allocated st),
                       requests := (requests st)
                         (r := \<lparr> read_write = REQUEST_READ, block1 = b,
                                    wdata = None, rdata = Some d \<rparr>)\<rparr>"
  let ?st2 = "?st1\<lparr>allocated := insert c (allocated ?st1)\<rparr>"
  have q2: "queue ?st2 s xs" using q by (simp add: queue_def)
  from append_node_queue[OF q2 c, of r] obtain st' where
    st': "append_node s c r ?st2 = Inr st'" "queue st' s (xs @ [c])"
       "val (links st' c) = r" "\<forall>a. a \<noteq> c \<longrightarrow> val (links st' a) = val (links ?st2 a)"
       "requests st' = requests ?st2" "nextblock st' = nextblock ?st2" "nextdir st' = nextdir ?st2"
       "\<forall>s'. s' \<noteq> s \<longrightarrow> schedulers st' s' = schedulers ?st2 s'"
       "mode (schedulers st' s) = mode (schedulers ?st2 s)"
       "disk (schedulers st' s) = disk (schedulers ?st2 s)"
    by blast
  have "disk_scheduler_read (Some r) (Some c) s b d st = Inr st'"
    using st'(1) by (simp add: disk_scheduler_read_def Let_def)
  moreover have "node_block st' c = b" using st' by (simp add: node_block_def)
  moreover have "\<forall>a\<in>set xs. node_block st' a = node_block st a"
    using st' c r by (auto simp: node_block_def)
  ultimately show ?thesis using st' by simp
qed


lemma queue_cursor_update [simp]:
  "queue (st\<lparr>nextdir := a, nextblock := b\<rparr>) s xs = queue st s xs"
  "queue (st\<lparr>nextblock := b, nextdir := a\<rparr>) s xs = queue st s xs"
  "queue (st\<lparr>allocated := A\<rparr>) s xs = queue st s xs"
  by (simp_all add: queue_def)

lemma pick_request_sound:
  assumes q: "queue st s xs" and ne: "xs \<noteq> []"
    and p: "pick_request s (hd xs) st = Some (c, st1)"
  shows "c \<in> set xs \<and> links st1 = links st \<and> schedulers st1 = schedulers st \<and>
         requests st1 = requests st \<and> allocated st1 = allocated st \<and> queue st1 s xs \<and>
         (mode (schedulers st s) = DISK_SCHEDULER_MODE_FIFO \<longrightarrow> st1 = st \<and> c = hd xs) \<and>
         (mode (schedulers st s) \<noteq> DISK_SCHEDULER_MODE_FIFO \<longrightarrow> nextblock st1 = node_block st c)"
proof (cases "mode (schedulers st s)")
  case DISK_SCHEDULER_MODE_FIFO
  with p q ne show ?thesis by (auto simp: pick_request_def)
next
  case DISK_SCHEDULER_MODE_SSTF
  with p obtain nd where l: "sstf_loop s st (hd xs) (hd xs) 0 = Some (c, nd)"
    and st1: "st1 = st\<lparr>nextdir := nd, nextblock := node_block st c\<rparr>"
    by (auto simp: pick_request_def split: option.splits)
  from sstf_loop_sound[OF l q] ne have "c \<in> set xs" by simp
  with st1 q DISK_SCHEDULER_MODE_SSTF show ?thesis by simp
next
  case DISK_SCHEDULER_MODE_SCAN
  with p obtain cc where l: "scan_loop s st (hd xs) (hd xs) (nextblock st, nextdir st) = Some (c, cc)"
    and st1: "st1 = st\<lparr>nextblock := fst cc, nextdir := snd cc\<rparr>"
    by (auto simp: pick_request_def split: option.splits)
  from scan_loop_sound[OF l q] ne have "c \<in> set xs" "node_block st c = fst cc" by simp_all
  with st1 q DISK_SCHEDULER_MODE_SCAN show ?thesis by simp
qed

lemma node_block_remove_request [simp]:
  "node_block (remove_request s c st) a = node_block st a"
  by (simp add: node_block_def remove_request_frame)

lemma disk_scheduler_run_serviced:
  assumes q: "queue st s xs" and r: "disk_scheduler_run s st = Some (Serviced c st')"
  shows "\<exists>ys zs. xs = ys @ c # zs \<and> queue st' s (ys @ zs) \<and>
           requests st' = requests st \<and> (\<forall>a. val (links st' a) = val (links st a)) \<and>
           (\<forall>a. node_block st' a = node_block st a) \<and>
           allocated st' = allocated st - {c} \<and>
           (\<forall>s'. s' \<noteq> s \<longrightarrow> schedulers st' s' = schedulers st s') \<and>
           mode (schedulers st' s) = mode (schedulers st s) \<and>
           disk (schedulers st' s) = disk (schedulers st s) \<and>
           (mode (schedulers st s) = DISK_SCHEDULER_MODE_FIFO \<longrightarrow>
              c = hd xs \<and> nextblock st' = nextblock st \<and> nextdir st' = nextdir st) \<and>
           (mode (schedulers st s) \<noteq> DISK_SCHEDULER_MODE_FIFO \<longrightarrow> nextblock st' = node_block st c)"
proof -
  from r obtain h where h: "head (schedulers st s) = Some h"
    by (auto simp: disk_scheduler_run_def split: option.splits)
  with queue_head[OF q] have ne: "xs \<noteq> []" and hx: "h = hd xs" by (auto split: if_splits)
  from r h hx obtain st1 where p: "pick_request s (hd xs) st = Some (c, st1)"
    and st': "st' = (remove_request s c st1)\<lparr>allocated := allocated (remove_request s c st1) - {c}\<rparr>"
    by (auto simp: disk_scheduler_run_def Let_def split: option.splits)
  note ps = pick_request_sound[OF q ne p]
  from ps have "c \<in> set xs" by simp
  then obtain ys zs where xs: "xs = ys @ c # zs" by (auto dest: split_list)
  from ps xs have "queue st1 s (ys @ c # zs)" by simp
  then have "queue (remove_request s c st1) s (ys @ zs)" by (rule remove_request_queue)
  then have "queue st' s (ys @ zs)" by (simp add: st')
  moreover have "\<forall>a. node_block st' a = node_block st a"
    using ps by (simp add: st' node_block_def remove_request_frame)
  ultimately show ?thesis
    using xs ps by (auto simp: st' remove_request_frame)
qed


lemmas example_defs =
  example_order_def example_def two_schedulers_def two_schedulers_state_def initial_state_def disk_scheduler_create_def disk_create_ok_def
  disk_scheduler_write_def append_node_def disk_scheduler_run_def pick_request_def
  remove_request_def node_block_def disk_scheduler_nblocks_def disk_nblocks_def
  scan_advance_def REQUEST_WRITE_def

lemma fifo_round:
  assumes q: "queue st s xs" and ne: "xs \<noteq> []"
    and m: "mode (schedulers st s) = DISK_SCHEDULER_MODE_FIFO"
  shows "\<exists>st'. disk_scheduler_run s st = Some (Serviced (hd xs) st') \<and> queue st' s (tl xs) \<and>
           (\<forall>a. node_block st' a = node_block st a) \<and> nextblock st' = nextblock st \<and>
           nextdir st' = nextdir st \<and> mode (schedulers st' s) = DISK_SCHEDULER_MODE_FIFO"
proof -
  from queue_head[OF q] ne have h: "head (schedulers st s) = Some (hd xs)" by simp
  let ?st2 = "remove_request s (hd xs) st"
  let ?st' = "?st2\<lparr>allocated := allocated ?st2 - {hd xs}\<rparr>"
  have r: "disk_scheduler_run s st = Some (Serviced (hd xs) ?st')"
    using h m by (simp add: disk_scheduler_run_def pick_request_def Let_def)
  from disk_scheduler_run_serviced[OF q r] m obtain ys zs where
    x: "xs = ys @ hd xs # zs" "queue ?st' s (ys @ zs)" "\<forall>a. node_block ?st' a = node_block st a"
      "nextblock ?st' = nextblock st" "nextdir ?st' = nextdir st"
      "mode (schedulers ?st' s) = mode (schedulers st s)"
    by auto
  from q have "distinct xs" by (simp add: queue_def)
  with x(1) ne have "ys = []" by (cases xs; cases ys) auto
  with x ne have "ys @ zs = tl xs" by (cases xs) auto
  with r x m show ?thesis by auto
qed

lemma fifo_service:
  assumes "queue st s xs" "mode (schedulers st s) = DISK_SCHEDULER_MODE_FIFO"
  shows "service (length xs) s st =
           Some (map (\<lambda>a. (node_block st a, nextblock st, nextdir st)) xs)"
  using assms
proof (induction xs arbitrary: st)
  case Nil
  then show ?case by simp
next
  case (Cons x xs)
  from fifo_round[OF Cons.prems(1) _ Cons.prems(2)] obtain st' where
    st': "disk_scheduler_run s st = Some (Serviced x st')" "queue st' s xs"
      "\<forall>a. node_block st' a = node_block st a" "nextblock st' = nextblock st"
      "nextdir st' = nextdir st" "mode (schedulers st' s) = DISK_SCHEDULER_MODE_FIFO"
    by auto
  from Cons.IH[OF st'(2) st'(6)] st' show ?case by simp
qed

lemma sstf_loop_nearest:
  assumes r: "sstf_loop s st (hd xs) (hd xs) 0 = Some (c, nd)"
    and q: "queue st s xs" and ne: "xs \<noteq> []"
  shows "\<exists>j<length xs. c = xs ! j \<and> nd = \<bar>node_block st (xs ! j) - nextblock st\<bar> \<and>
           (\<forall>k<length xs. nd \<le> \<bar>node_block st (xs ! k) - nextblock st\<bar>) \<and>
           (\<forall>k<j. \<bar>node_block st (xs ! k) - nextblock st\<bar> \<noteq> nd)"
proof -
  let ?D = "\<lambda>k. \<bar>node_block st (xs ! k) - nextblock st\<bar>"
  let ?I = "\<lambda>cur nd. \<exists>i<length xs. cur = xs ! i \<and> 0 \<le> nd \<and>
              (\<forall>k<length xs. nd \<le> ?D k) \<and> (\<forall>k<i. ?D k \<noteq> nd)"
  from ne have h0: "hd xs = xs ! 0" "0 < length xs" by (cases xs; simp)+
  have "?I (fst (c, nd)) (snd (c, nd)) \<and>
         (node_block st (fst (c, nd)) = nextblock st + snd (c, nd) \<or>
          node_block st (fst (c, nd)) = nextblock st - snd (c, nd))"
  proof (rule sstf_loop_rule[where I = ?I, OF r])
    show "?I (hd xs) 0" using h0 by auto
  next
    fix cur nd c'
    assume I: "?I cur nd"
      and nm: "node_block st cur \<noteq> nextblock st + nd \<and> node_block st cur \<noteq> nextblock st - nd"
      and nx: "next (links st cur) = Some c'"
    from I obtain i where i: "i < length xs" "cur = xs ! i" "0 \<le> nd"
      "\<forall>k<length xs. nd \<le> ?D k" "\<forall>k<i. ?D k \<noteq> nd" by blast
    from queue_next_nth[OF q i(1)] nx i(2) have s: "Suc i < length xs" "c' = xs ! Suc i"
      by (auto split: if_splits)
    from nm i(2) have "?D i \<noteq> nd" by (auto simp: abs_if split: if_splits)
    with i(5) have "\<forall>k<Suc i. ?D k \<noteq> nd" by (auto simp: less_Suc_eq)
    with s i show "?I c' nd" by blast
  next
    fix cur nd
    assume I: "?I cur nd"
      and nm: "node_block st cur \<noteq> nextblock st + nd \<and> node_block st cur \<noteq> nextblock st - nd"
      and nx: "next (links st cur) = None"
    from I obtain i where i: "i < length xs" "cur = xs ! i" "0 \<le> nd"
      "\<forall>k<length xs. nd \<le> ?D k" "\<forall>k<i. ?D k \<noteq> nd" by blast
    from queue_next_nth[OF q i(1)] nx i(1,2) have s: "length xs = Suc i"
      by (auto split: if_splits)
    from nm i(2) have "?D i \<noteq> nd" by (auto simp: abs_if split: if_splits)
    with i(5) s have "\<forall>k<length xs. ?D k \<noteq> nd" by (auto simp: less_Suc_eq)
    with i(4) have "\<forall>k<length xs. nd + 1 \<le> ?D k" by fastforce
    with h0 i(3)
    show "?I (hd xs) (if nd + 1 \<ge> disk_scheduler_nblocks s st - 1 then 0 else nd + 1)"
      by auto
  qed
  then obtain i where i: "i < length xs" "c = xs ! i" "0 \<le> nd"
      "\<forall>k<length xs. nd \<le> ?D k" "\<forall>k<i. ?D k \<noteq> nd"
    and m: "node_block st c = nextblock st + nd \<or> node_block st c = nextblock st - nd"
    by auto
  from m i(2,3) have "nd = ?D i" by (auto simp: abs_if)
  with i show ?thesis by blast
qed

lemma sstf_round_nearest:
  assumes q: "queue st s xs"
    and m: "mode (schedulers st s) = DISK_SCHEDULER_MODE_SSTF"
    and r: "disk_scheduler_run s st = Some (Serviced c st')"
  shows "\<exists>j<length xs. c = xs ! j \<and>
           (\<forall>k<length xs. \<bar>node_block st (xs ! j) - nextblock st\<bar>
                             \<le> \<bar>node_block st (xs ! k) - nextblock st\<bar>) \<and>
           (\<forall>k<j. \<bar>node_block st (xs ! k) - nextblock st\<bar>
                     \<noteq> \<bar>node_block st (xs ! j) - nextblock st\<bar>) \<and>
           nextblock st' = node_block st c \<and>
           nextdir st' = \<bar>node_block st c - nextblock st\<bar> \<and>
           queue st' s (take j xs @ drop (Suc j) xs)"
proof -
  from r obtain h where h: "head (schedulers st s) = Some h"
    by (auto simp: disk_scheduler_run_def split: option.splits)
  with queue_head[OF q] have ne: "xs \<noteq> []" and hx: "h = hd xs" by (auto split: if_splits)
  from r h hx m obtain nd where l: "sstf_loop s st (hd xs) (hd xs) 0 = Some (c, nd)"
    and st': "st' = (remove_request s c (st\<lparr>nextdir := nd, nextblock := node_block st c\<rparr>))
                \<lparr>allocated := allocated (remove_request s c (st\<lparr>nextdir := nd, nextblock := node_block st c\<rparr>)) - {c}\<rparr>"
    by (auto simp: disk_scheduler_run_def pick_request_def Let_def split: option.splits)
  from sstf_loop_nearest[OF l q ne] obtain j where j: "j < length xs" "c = xs ! j"
    "nd = \<bar>node_block st (xs ! j) - nextblock st\<bar>"
    "\<forall>k<length xs. nd \<le> \<bar>node_block st (xs ! k) - nextblock st\<bar>"
    "\<forall>k<j. \<bar>node_block st (xs ! k) - nextblock st\<bar> \<noteq> nd" by blast
  from j(1) have xs: "xs = take j xs @ xs ! j # drop (Suc j) xs" by (rule id_take_nth_drop)
  have "queue (st\<lparr>nextdir := nd, nextblock := node_block st c\<rparr>) s (take j xs @ c # drop (Suc j) xs)"
    using q xs j(2) by simp
  then have "queue st' s (take j xs @ drop (Suc j) xs)"
    unfolding st' by (simp add: remove_request_queue)
  moreover have "nextblock st' = node_block st c" "nextdir st' = nd"
    by (simp_all add: st' remove_request_frame)
  ultimately show ?thesis using j by auto
qed


lemma sstf_round_first:
  assumes q: "queue st s xs"
    and m: "mode (schedulers st s) = DISK_SCHEDULER_MODE_SSTF"
    and j: "j < length xs"
    and r: "r = \<bar>node_block st (xs ! j) - nextblock st\<bar>"
    and least: "\<forall>k<length xs. r \<le> \<bar>node_block st (xs ! k) - nextblock st\<bar>"
    and first: "\<forall>k<j. \<bar>node_block st (xs ! k) - nextblock st\<bar> \<noteq> r"
    and bound: "r = 0 \<or> r \<le> disk_scheduler_nblocks s st - 2"
  shows "\<exists>st'. disk_scheduler_run s st = Some (Serviced (xs ! j) st') \<and>
           nextblock st' = node_block st (xs ! j) \<and> nextdir st' = r \<and>
           queue st' s (take j xs @ drop (Suc j) xs)"
proof -
  from j have ne: "xs \<noteq> []" by auto
  with queue_head[OF q] have h: "head (schedulers st s) = Some (hd xs)" by simp
  have l: "sstf_loop s st (hd xs) (hd xs) 0 = Some (xs ! j, r)"
    using r by (intro sstf_loop_finds[OF q j r least first bound]) auto
  let ?st1 = "st\<lparr>nextdir := r, nextblock := node_block st (xs ! j)\<rparr>"
  let ?st2 = "remove_request s (xs ! j) ?st1"
  let ?st' = "?st2\<lparr>allocated := allocated ?st2 - {xs ! j}\<rparr>"
  have run: "disk_scheduler_run s st = Some (Serviced (xs ! j) ?st')"
    using h m l by (simp add: disk_scheduler_run_def pick_request_def Let_def)
  from j have xs: "xs = take j xs @ xs ! j # drop (Suc j) xs" by (rule id_take_nth_drop)
  have "queue ?st1 s (take j xs @ xs ! j # drop (Suc j) xs)"
    using q xs by simp
  then have "queue ?st' s (take j xs @ drop (Suc j) xs)"
    by (simp add: remove_request_queue)
  moreover have "nextblock ?st' = node_block st (xs ! j)" "nextdir ?st' = r"
    by (simp_all add: remove_request_frame)
  ultimately show ?thesis using run by blast
qed

lemma sstf_round_never:
  assumes q: "queue st s xs" and ne: "xs \<noteq> []"
    and m: "mode (schedulers st s) = DISK_SCHEDULER_MODE_SSTF"
    and far: "\<forall>a\<in>set xs. node_block st a \<noteq> nextblock st \<and>
                disk_scheduler_nblocks s st - 2 < \<bar>node_block st a - nextblock st\<bar>"
  shows "disk_scheduler_run s st = None"
proof -
  from queue_head[OF q] ne have h: "head (schedulers st s) = Some (hd xs)" by simp
  from ne have "hd xs \<in> set xs" by simp
  from sstf_loop_never[OF q this far] h m show ?thesis
    by (simp add: disk_scheduler_run_def pick_request_def)
qed

lemma scan_round_finds:
  assumes q: "queue st s xs"
    and m: "mode (schedulers st s) = DISK_SCHEDULER_MODE_SCAN"
    and j: "j < length xs"
    and f: "node_block st (xs ! j) =
              fst ((scan_advance (disk_scheduler_nblocks s st) ^^ k) (nextblock st, nextdir st))"
    and first: "\<forall>i<j. node_block st (xs ! i) \<noteq>
              fst ((scan_advance (disk_scheduler_nblocks s st) ^^ k) (nextblock st, nextdir st))"
    and least: "\<forall>m<k. \<forall>i<length xs. node_block st (xs ! i) \<noteq>
              fst ((scan_advance (disk_scheduler_nblocks s st) ^^ m) (nextblock st, nextdir st))"
  shows "\<exists>st'. disk_scheduler_run s st = Some (Serviced (xs ! j) st') \<and>
           (nextblock st', nextdir st') =
             (scan_advance (disk_scheduler_nblocks s st) ^^ k) (nextblock st, nextdir st) \<and>
           queue st' s (take j xs @ drop (Suc j) xs)"
proof -
  let ?c = "(scan_advance (disk_scheduler_nblocks s st) ^^ k) (nextblock st, nextdir st)"
  from j have ne: "xs \<noteq> []" by auto
  with queue_head[OF q] have h: "head (schedulers st s) = Some (hd xs)" by simp
  have l: "scan_loop s st (hd xs) (hd xs) (nextblock st, nextdir st) = Some (xs ! j, ?c)"
    by (rule scan_loop_finds[OF q j f first least])
  let ?st1 = "st\<lparr>nextblock := fst ?c, nextdir := snd ?c\<rparr>"
  let ?st2 = "remove_request s (xs ! j) ?st1"
  let ?st' = "?st2\<lparr>allocated := allocated ?st2 - {xs ! j}\<rparr>"
  have run: "disk_scheduler_run s st = Some (Serviced (xs ! j) ?st')"
    using h m l by (simp add: disk_scheduler_run_def pick_request_def Let_def)
  from j have xs: "xs = take j xs @ xs ! j # drop (Suc j) xs" by (rule id_take_nth_drop)
  have "queue ?st1 s (take j xs @ xs ! j # drop (Suc j) xs)"
    using q xs by simp
  then have "queue ?st' s (take j xs @ drop (Suc j) xs)"
    by (simp add: remove_request_queue)
  moreover have "(nextblock ?st', nextdir ?st') = ?c"
    by (simp add: remove_request_frame)
  ultimately show ?thesis using run by blast
qed

lemma scan_advance_cases:
  assumes "1 \<le> n" "0 \<le> b" "b \<le> n - 1"
  shows "scan_advance n (b, 1) = (if b < n - 1 then (b + 1, 1) else (n - 1, -1))"
    and "scan_advance n (b, -1) = (if 0 < b then (b - 1, -1) else (0, 1))"
  using assms by (auto simp: scan_advance_def Let_def)

lemma append_node_frame:
  assumes "append_node s' c r st = Inr st'"
  shows "nextblock st' = nextblock st \<and> nextdir st' = nextdir st \<and>
    (\<forall>s. mode (schedulers st' s) = mode (schedulers st s) \<and>
         disk (schedulers st' s) = disk (schedulers st s))"
  using assms by (auto simp: append_node_def Let_def split: option.splits)

lemma disk_scheduler_write_frame:
  assumes "disk_scheduler_write m1 m2 s' b d st = Inr st'"
  shows "nextblock st' = nextblock st \<and> nextdir st' = nextdir st \<and>
    (\<forall>s. mode (schedulers st' s) = mode (schedulers st s) \<and>
         disk (schedulers st' s) = disk (schedulers st s))"
proof -
  from assms obtain r c where
    "append_node s' c r (st\<lparr>allocated := insert r (allocated st),
        requests := (requests st)(r := \<lparr> read_write = REQUEST_WRITE, block1 = b,
                                         wdata = Some d, rdata = None \<rparr>),
        allocated := insert c (insert r (allocated st))\<rparr>) = Inr st'"
    by (auto simp: disk_scheduler_write_def Let_def split: option.splits)
  from append_node_frame[OF this] show ?thesis by simp
qed

lemma disk_scheduler_read_frame:
  assumes "disk_scheduler_read m1 m2 s' b d st = Inr st'"
  shows "nextblock st' = nextblock st \<and> nextdir st' = nextdir st \<and>
    (\<forall>s. mode (schedulers st' s) = mode (schedulers st s) \<and>
         disk (schedulers st' s) = disk (schedulers st s))"
proof -
  from assms obtain r c where
    "append_node s' c r (st\<lparr>allocated := insert r (allocated st),
        requests := (requests st)(r := \<lparr> read_write = REQUEST_READ, block1 = b,
                                         wdata = None, rdata = Some d \<rparr>),
        allocated := insert c (insert r (allocated st))\<rparr>) = Inr st'"
    by (auto simp: disk_scheduler_read_def Let_def split: option.splits)
  from append_node_frame[OF this] show ?thesis by simp
qed

lemma pick_request_frame:
  assumes "pick_request s h st = Some (c, st1)"
  shows "schedulers st1 = schedulers st \<and> links st1 = links st \<and> requests st1 = requests st \<and>
    allocated st1 = allocated st"
  using assms
  by (auto simp: pick_request_def split: disk_scheduler_mode_t.splits option.splits)

lemma disk_scheduler_run_frame:
  assumes "disk_scheduler_run s' st = Some (Serviced c st')"
  shows "(\<forall>s. mode (schedulers st' s) = mode (schedulers st s) \<and>
              disk (schedulers st' s) = disk (schedulers st s)) \<and>
    requests st' = requests st"
proof -
  from assms obtain h st1 where p: "pick_request s' h st = Some (c, st1)"
    and st': "st' = (remove_request s' c st1)\<lparr>allocated := allocated (remove_request s' c st1) - {c}\<rparr>"
    by (auto simp: disk_scheduler_run_def Let_def split: option.splits)
  from pick_request_frame[OF p] show ?thesis
    by (simp add: st' remove_request_frame)
qed

lemma scan_advance_ok_le:
  "1 \<le> n' \<Longrightarrow> n' \<le> n \<Longrightarrow> cursor_ok n c \<Longrightarrow> cursor_ok n (scan_advance n' c)"
  by (auto simp: cursor_ok_def scan_advance_def Let_def)

lemma scan_round_cursor:
  assumes r: "disk_scheduler_run s' st = Some (Serviced c st')"
    and m: "mode (schedulers st s') = DISK_SCHEDULER_MODE_SCAN"
    and n: "1 \<le> disk_scheduler_nblocks s' st" "disk_scheduler_nblocks s' st \<le> n"
    and c: "cursor_ok n (nextblock st, nextdir st)"
  shows "cursor_ok n (nextblock st', nextdir st')"
proof -
  from r m obtain h cc where l: "scan_loop s' st h h (nextblock st, nextdir st) = Some (c, cc)"
    and st': "nextblock st' = fst cc" "nextdir st' = snd cc"
    by (auto simp: disk_scheduler_run_def pick_request_def Let_def remove_request_frame
             split: option.splits)
  have "(\<lambda>cur c. cursor_ok n c) (fst (c, cc)) (snd (c, cc)) \<and>
        node_block st (fst (c, cc)) = fst (snd (c, cc))"
    by (rule scan_loop_rule[where I = "\<lambda>cur c. cursor_ok n c", OF l])
       (auto intro: c scan_advance_ok_le[OF n])
  with st' show ?thesis by simp
qed

lemma fifo_round_cursor:
  assumes r: "disk_scheduler_run s' st = Some (Serviced c st')"
    and m: "mode (schedulers st s') = DISK_SCHEDULER_MODE_FIFO"
  shows "nextblock st' = nextblock st \<and> nextdir st' = nextdir st"
  using r m
  by (auto simp: disk_scheduler_run_def pick_request_def Let_def remove_request_frame
           split: option.splits)

lemma scan_process_inv:
  assumes "scan_process s st"
  shows "mode (schedulers st s) = DISK_SCHEDULER_MODE_SCAN \<and>
         (1 \<le> disk_scheduler_nblocks s st \<longrightarrow>
            cursor_ok (disk_scheduler_nblocks s st) (nextblock st, nextdir st))"
  using assms
proof (induction rule: scan_process.induct)
  case (at_start st)
  then show ?case by (simp add: cursor_ok_def)
next
  case (after_write st m1 m2 s' b d st')
  from disk_scheduler_write_frame[OF after_write.hyps(2)] after_write.IH
  show ?case by (simp add: disk_scheduler_nblocks_def)
next
  case (after_read st m1 m2 s' b d st')
  from disk_scheduler_read_frame[OF after_read.hyps(2)] after_read.IH
  show ?case by (simp add: disk_scheduler_nblocks_def)
next
  case (after_round st s' c st')
  from disk_scheduler_run_frame[OF after_round.hyps(2)]
  have f: "mode (schedulers st' s) = mode (schedulers st s)"
    "disk_scheduler_nblocks s st' = disk_scheduler_nblocks s st"
    by (simp_all add: disk_scheduler_nblocks_def)
  have "cursor_ok (disk_scheduler_nblocks s st) (nextblock st', nextdir st')"
    if ok: "cursor_ok (disk_scheduler_nblocks s st) (nextblock st, nextdir st)"
  proof -
    from after_round.hyps(3) show ?thesis
    proof (elim disjE conjE)
      assume "mode (schedulers st s') = DISK_SCHEDULER_MODE_FIFO"
      from fifo_round_cursor[OF after_round.hyps(2) this] ok show ?thesis by simp
    next
      assume "mode (schedulers st s') = DISK_SCHEDULER_MODE_SCAN"
        "1 \<le> disk_scheduler_nblocks s' st"
        "disk_scheduler_nblocks s' st \<le> disk_scheduler_nblocks s st"
      then show ?thesis using ok by (rule scan_round_cursor[OF after_round.hyps(2)])
    qed
  qed
  with after_round.IH f show ?case by auto
qed




lemma queue_cong:
  assumes "\<forall>a\<in>set xs. links st' a = links st a" "schedulers st' s = schedulers st s"
  shows "queue st' s xs = queue st s xs"
proof -
  have "path (links st') None (head (schedulers st s)) xs =
        path (links st) None (head (schedulers st s)) xs"
    using assms(1) by (intro path_cong) (auto dest: in_set_butlastD)
  moreover have "xs \<noteq> [] \<Longrightarrow> links st' (last xs) = links st (last xs)"
    using assms(1) by simp
  ultimately show ?thesis using assms(2) by (auto simp: queue_def)
qed

lemma remove_request_links:
  assumes q: "queue st s xs" and c: "c \<in> set xs" and a: "a \<notin> set xs"
  shows "links (remove_request s c st) a = links st a"
proof -
  from c obtain i where i: "i < length xs" "c = xs ! i" by (auto simp: in_set_conv_nth)
  from c obtain ys zs where xs: "xs = ys @ c # zs" by (auto dest: split_list)
  from q xs have pc: "prev (links st c) = (if ys = [] then None else Some (last ys))"
    by (auto simp: queue_def path_append split: if_splits)
  from queue_next_nth[OF q i(1)] i have nc: "\<And>n. next (links st c) = Some n \<Longrightarrow> n \<in> set xs"
    by (auto split: if_splits)
  have pin: "\<And>p. prev (links st c) = Some p \<Longrightarrow> p \<in> set xs"
    using pc xs by (auto split: if_splits)
  show ?thesis
    using a nc pin by (auto simp: remove_request_def Let_def split: option.splits)
qed

lemma disk_scheduler_run_other:
  assumes q: "queue st s xs" and q': "queue st s' xs'" and ne: "s' \<noteq> s"
    and dj: "set xs \<inter> set xs' = {}"
    and r: "disk_scheduler_run s st = Some (Serviced c st')"
  shows "schedulers st' s' = schedulers st s' \<and> queue st' s' xs' \<and>
         (\<forall>a. node_block st' a = node_block st a)"
proof -
  from r obtain h where h: "head (schedulers st s) = Some h"
    by (auto simp: disk_scheduler_run_def split: option.splits)
  with queue_head[OF q] have nex: "xs \<noteq> []" and hx: "h = hd xs" by (auto split: if_splits)
  from r h hx obtain st1 where p: "pick_request s (hd xs) st = Some (c, st1)"
    and st': "st' = (remove_request s c st1)\<lparr>allocated := allocated (remove_request s c st1) - {c}\<rparr>"
    by (auto simp: disk_scheduler_run_def Let_def split: option.splits)
  note ps = pick_request_sound[OF q nex p]
  from ps have q1: "queue st1 s xs" and c: "c \<in> set xs" by simp_all
  have l: "\<forall>a\<in>set xs'. links st' a = links st a"
  proof
    fix a assume "a \<in> set xs'"
    with dj have "a \<notin> set xs" by auto
    from remove_request_links[OF q1 c this] ps show "links st' a = links st a"
      by (simp add: st')
  qed
  have sc: "schedulers st' s' = schedulers st s'"
    using ne ps by (simp add: st' remove_request_frame)
  from queue_cong[OF l sc] q' have "queue st' s' xs'" by simp
  moreover from disk_scheduler_run_serviced[OF q r] have "\<forall>a. node_block st' a = node_block st a"
    by blast
  ultimately show ?thesis using sc by simp
qed


lemma sstf_example_orders:
  assumes "13 \<le> n"
  shows "\<forall>bs\<in>set [[3, 12, 9], [3, 9, 12], [12, 3, 9], [12, 9, 3], [9, 3, 12], [9, 12, 3]].
            example_order DISK_SCHEDULER_MODE_SSTF n (10, d) bs 3 =
              Inr (Some [(9, 9, 1), (12, 12, 3), (3, 3, 9)])"
  using assms by (simp add: example_defs sstf_loop.simps numeral_eq_Suc)

lemma sstf_last_block_not_found:
  assumes "2 \<le> n"
  shows "example_order DISK_SCHEDULER_MODE_SSTF n (0, d) [n - 1] 1 = Inr None"
proof -
  have "\<exists>st. example DISK_SCHEDULER_MODE_SSTF n (0, d) [n - 1] = Inr st \<and>
        queue st 100 [2] \<and> mode (schedulers st 100) = DISK_SCHEDULER_MODE_SSTF \<and>
        node_block st 2 = n - 1 \<and> nextblock st = 0 \<and> disk_scheduler_nblocks 100 st = n"
    by (simp add: example_defs queue_def numeral_eq_Suc)
  then obtain st where st: "example DISK_SCHEDULER_MODE_SSTF n (0, d) [n - 1] = Inr st"
    "queue st 100 [2]" "mode (schedulers st 100) = DISK_SCHEDULER_MODE_SSTF"
    "node_block st 2 = n - 1" "nextblock st = 0" "disk_scheduler_nblocks 100 st = n"
    by (elim exE conjE)
  have "disk_scheduler_run 100 st = None"
    using st assms by (intro sstf_round_never[OF st(2) _ st(3)]) auto
  with st(1) show ?thesis by (simp add: example_order_def)
qed

section \<open>Claims\<close>

text \<open>
  C6.  In FIFO mode the round of \<open>disk_scheduler_run\<close> services the node at the head of
  the list and leaves the rest of the list, so that the requests of a list are serviced
  in the order of the list; \<open>disk_scheduler_write\<close> and \<open>disk_scheduler_read\<close> append the
  new node at the tail.  With requests for the blocks 5, 2 and 8 written in this order,
  three rounds service the blocks 5, 2 and 8, whatever the disk size and the cursor.
\<close>

theorem fifo_arrival_order:
  assumes "queue st s xs" and "mode (schedulers st s) = DISK_SCHEDULER_MODE_FIFO"
    and "c \<notin> set xs" and "\<forall>a\<in>set xs. val (links st a) \<noteq> r"
  shows "(xs \<noteq> [] \<longrightarrow>
            (\<exists>st'. disk_scheduler_run s st = Some (Serviced (hd xs) st') \<and> queue st' s (tl xs))) \<and>
         map_option (map fst) (service (length xs) s st) = Some (map (node_block st) xs) \<and>
         (\<exists>st'. disk_scheduler_write (Some r) (Some c) s b d st = Inr st' \<and>
                queue st' s (xs @ [c]) \<and>
                map (node_block st') (xs @ [c]) = map (node_block st) xs @ [b]) \<and>
         (\<exists>st'. disk_scheduler_read (Some r) (Some c) s b d st = Inr st' \<and>
                queue st' s (xs @ [c]) \<and>
                map (node_block st') (xs @ [c]) = map (node_block st) xs @ [b]) \<and>
         example_order DISK_SCHEDULER_MODE_FIFO n k [5, 2, 8] 3 =
           Inr (Some [(5, fst k, snd k), (2, fst k, snd k), (8, fst k, snd k)])"
proof (intro conjI impI)
  assume "xs \<noteq> []"
  from fifo_round[OF assms(1) this assms(2)]
  show "\<exists>st'. disk_scheduler_run s st = Some (Serviced (hd xs) st') \<and> queue st' s (tl xs)"
    by blast
next
  show "map_option (map fst) (service (length xs) s st) = Some (map (node_block st) xs)"
    by (simp add: fifo_service[OF assms(1,2)] comp_def)
next
  from disk_scheduler_write_queue[OF assms(1,3,4), of b d] obtain st' where
    st': "disk_scheduler_write (Some r) (Some c) s b d st = Inr st'" "queue st' s (xs @ [c])"
      "node_block st' c = b" "\<forall>a\<in>set xs. node_block st' a = node_block st a"
    by blast
  from st'(3,4) have "map (node_block st') (xs @ [c]) = map (node_block st) xs @ [b]"
    by simp
  with st'(1,2)
  show "\<exists>st'. disk_scheduler_write (Some r) (Some c) s b d st = Inr st' \<and>
                queue st' s (xs @ [c]) \<and>
                map (node_block st') (xs @ [c]) = map (node_block st) xs @ [b]"
    by blast
next
  from disk_scheduler_read_queue[OF assms(1,3,4), of b d] obtain st' where
    st': "disk_scheduler_read (Some r) (Some c) s b d st = Inr st'" "queue st' s (xs @ [c])"
      "node_block st' c = b" "\<forall>a\<in>set xs. node_block st' a = node_block st a"
    by blast
  from st'(3,4) have "map (node_block st') (xs @ [c]) = map (node_block st) xs @ [b]"
    by simp
  with st'(1,2)
  show "\<exists>st'. disk_scheduler_read (Some r) (Some c) s b d st = Inr st' \<and>
                queue st' s (xs @ [c]) \<and>
                map (node_block st') (xs @ [c]) = map (node_block st) xs @ [b]"
    by blast
next
  show "example_order DISK_SCHEDULER_MODE_FIFO n k [5, 2, 8] 3 =
           Inr (Some [(5, fst k, snd k), (2, fst k, snd k), (8, fst k, snd k)])"
    by (simp add: example_defs numeral_eq_Suc)
qed

theorem fifo_arrival_order_witness:
  "\<exists>st. example DISK_SCHEDULER_MODE_FIFO 16 (0, 1) [5, 2, 8] = Inr st \<and>
        queue st 100 [2, 4, 6] \<and> mode (schedulers st 100) = DISK_SCHEDULER_MODE_FIFO \<and>
        8 \<notin> set [2, 4, 6::nat] \<and> (\<forall>a\<in>set [2, 4, 6]. val (links st a) \<noteq> 7) \<and>
        map (node_block st) [2, 4, 6] = [5, 2, 8] \<and>
        map_option (map fst) (service 3 100 st) = Some [5, 2, 8] \<and>
        (\<exists>st'. disk_scheduler_run 100 st = Some (Serviced 2 st') \<and> queue st' 100 [4, 6]) \<and>
        (\<exists>st'. disk_scheduler_write (Some 7) (Some 8) 100 3 0 st = Inr st' \<and>
               queue st' 100 [2, 4, 6, 8] \<and> map (node_block st') [2, 4, 6, 8] = [5, 2, 8, 3])"
proof -
  have "\<exists>st. example DISK_SCHEDULER_MODE_FIFO 16 (0, 1) [5, 2, 8] = Inr st \<and>
        queue st 100 [2, 4, 6] \<and> mode (schedulers st 100) = DISK_SCHEDULER_MODE_FIFO \<and>
        (\<forall>a\<in>set [2, 4, 6]. val (links st a) \<noteq> 7) \<and> map (node_block st) [2, 4, 6] = [5, 2, 8]"
    by (simp add: example_defs queue_def numeral_eq_Suc)
  then obtain st where st: "example DISK_SCHEDULER_MODE_FIFO 16 (0, 1) [5, 2, 8] = Inr st"
    "queue st 100 [2, 4, 6]" "mode (schedulers st 100) = DISK_SCHEDULER_MODE_FIFO"
    "\<forall>a\<in>set [2, 4, 6]. val (links st a) \<noteq> 7" "map (node_block st) [2, 4, 6] = [5, 2, 8]"
    by (elim exE conjE)
  have c: "8 \<notin> set [2, 4, 6::nat]" by simp
  have l: "length [2, 4, 6::nat] = 3" "hd [2, 4, 6::nat] = 2" "tl [2, 4, 6::nat] = [4, 6]"
    "[2, 4, 6::nat] @ [8] = [2, 4, 6, 8]" "[5, 2, 8] @ [3::int] = [5, 2, 8, 3]"
    "([2, 4, 6::nat] \<noteq> []) = True"
    by simp_all
  note T = fifo_arrival_order[OF st(2,3) c st(4), of 3 0 16 "(0, 1)", unfolded l st(5)]
  from T have t1: "\<exists>st'. disk_scheduler_run 100 st = Some (Serviced 2 st') \<and> queue st' 100 [4, 6]"
    and t2: "map_option (map fst) (service 3 100 st) = Some [5, 2, 8]"
    and t3: "\<exists>st'. disk_scheduler_write (Some 7) (Some 8) 100 3 0 st = Inr st' \<and>
               queue st' 100 [2, 4, 6, 8] \<and> map (node_block st') [2, 4, 6, 8] = [5, 2, 8, 3]"
    by simp_all
  show ?thesis
    by (intro exI[of _ st] conjI st c t1 t2 t3)
qed


text \<open>
  C1.  With \<open>nextblock\<close> at 10 and requests for the blocks 3, 12 and 9 on a disk of 16
  blocks, three rounds in SSTF mode service the blocks 9, 12 and 3, and after each round
  \<open>nextblock\<close> is the block serviced (second component; the third is \<open>nextdir\<close>, the
  radius at which the block was found).  But the round does not always pick the nearest
  request: the radius is reset before it reaches \<open>nblocks - 1\<close> (line 242), so with
  \<open>nextblock\<close> at 0, as at program start, a single request for the last block of a disk
  of 8 blocks, or of 2 blocks, is never picked and the round does not end.
\<close>

theorem sstf_nearest_not_picked:
  "example_order DISK_SCHEDULER_MODE_SSTF 16 (10, 1) [3, 12, 9] 3 =
     Inr (Some [(9, 9, 1), (12, 12, 3), (3, 3, 9)]) \<and>
   example_order DISK_SCHEDULER_MODE_SSTF 8 (0, 1) [7] 1 = Inr None \<and>
   example_order DISK_SCHEDULER_MODE_SSTF 2 (0, 1) [1] 1 = Inr None"
proof (intro conjI)
  have "(13::int) \<le> 16" by simp
  from sstf_example_orders[OF this, of 1]
  show "example_order DISK_SCHEDULER_MODE_SSTF 16 (10, 1) [3, 12, 9] 3 =
     Inr (Some [(9, 9, 1), (12, 12, 3), (3, 3, 9)])"
    by simp
  have "(2::int) \<le> 8" by simp
  from sstf_last_block_not_found[OF this, of 1]
  show "example_order DISK_SCHEDULER_MODE_SSTF 8 (0, 1) [7] 1 = Inr None"
    by simp
  have "(2::int) \<le> 2" by simp
  from sstf_last_block_not_found[OF this, of 1]
  show "example_order DISK_SCHEDULER_MODE_SSTF 2 (0, 1) [1] 1 = Inr None"
    by simp
qed

text \<open>
  C2.  The radius is reset to 0 as soon as it reaches \<open>nblocks - 1\<close> (line 242), so the
  search tries the radii 0 to \<open>nblocks - 2\<close> only: on a disk of 16 blocks, with
  \<open>nextblock\<close> at 0 as at program start and a single request for block 15, the round
  of the scheduler in SSTF mode never ends.
\<close>

theorem sstf_farthest_request_not_found:
  "example_order DISK_SCHEDULER_MODE_SSTF 16 (0, 1) [15] 1 = Inr None"
proof -
  have "\<exists>st. example DISK_SCHEDULER_MODE_SSTF 16 (0, 1) [15] = Inr st \<and>
        queue st 100 [2] \<and> mode (schedulers st 100) = DISK_SCHEDULER_MODE_SSTF \<and>
        node_block st 2 = 15 \<and> nextblock st = 0 \<and> disk_scheduler_nblocks 100 st = 16"
    by (simp add: example_defs queue_def numeral_eq_Suc)
  then obtain st where st: "example DISK_SCHEDULER_MODE_SSTF 16 (0, 1) [15] = Inr st"
    "queue st 100 [2]" "mode (schedulers st 100) = DISK_SCHEDULER_MODE_SSTF"
    "node_block st 2 = 15" "nextblock st = 0" "disk_scheduler_nblocks 100 st = 16"
    by (elim exE conjE)
  have "disk_scheduler_run 100 st = None"
    using st by (intro sstf_round_never[OF st(2) _ st(3)]) auto
  with st(1) show ?thesis by (simp add: example_order_def)
qed

text \<open>
  C3, as stated, fails: with \<open>nextblock\<close> at 10 and the requests for block 9 and block 11
  written in this order, the round services block 9, not block 11.
\<close>

theorem sstf_tie_counterexample:
  "example_order DISK_SCHEDULER_MODE_SSTF 16 (10, 1) [9, 11] 1 = Inr (Some [(9, 9, 1)]) \<and>
   example_order DISK_SCHEDULER_MODE_SSTF 16 (10, 1) [9, 11] 1 \<noteq> Inr (Some [(11, 11, 1)])"
  by (simp add: example_defs sstf_loop.simps numeral_eq_Suc)

text \<open>
  C3, amended.  In SSTF mode, when the two nearest requests of the list sit at the same
  radius \<open>r\<close> on opposite sides of \<open>nextblock\<close>, both on the disk, the round services the
  one that comes first in the list (the one written earlier), whichever side it is on.
\<close>

theorem sstf_tie_queue_order:
  assumes "queue st s xs" and "mode (schedulers st s) = DISK_SCHEDULER_MODE_SSTF"
    and "i < length xs" and "j < length xs" and "i < j"
    and "0 < r"
    and "0 \<le> nextblock st - r \<and> nextblock st + r < disk_scheduler_nblocks s st"
    and "{node_block st (xs ! i), node_block st (xs ! j)} = {nextblock st + r, nextblock st - r}"
    and "\<forall>k<length xs. k \<noteq> i \<and> k \<noteq> j \<longrightarrow> r < \<bar>node_block st (xs ! k) - nextblock st\<bar>"
  shows "\<exists>st'. disk_scheduler_run s st = Some (Serviced (xs ! i) st') \<and>
           nextblock st' = node_block st (xs ! i) \<and>
           queue st' s (take i xs @ drop (Suc i) xs)"
proof -
  from assms(6,8) have d: "\<bar>node_block st (xs ! i) - nextblock st\<bar> = r"
    "\<bar>node_block st (xs ! j) - nextblock st\<bar> = r"
    by (auto simp: doubleton_eq_iff)
  have least: "\<forall>k<length xs. r \<le> \<bar>node_block st (xs ! k) - nextblock st\<bar>"
  proof (intro allI impI)
    fix k assume "k < length xs"
    with assms(9) d show "r \<le> \<bar>node_block st (xs ! k) - nextblock st\<bar>"
      by (cases "k = i \<or> k = j") (auto simp: less_imp_le)
  qed
  have first: "\<forall>k<i. \<bar>node_block st (xs ! k) - nextblock st\<bar> \<noteq> r"
  proof (intro allI impI)
    fix k assume k: "k < i"
    with assms(3,5) have "k < length xs" "k \<noteq> i \<and> k \<noteq> j" by auto
    with assms(9) have "r < \<bar>node_block st (xs ! k) - nextblock st\<bar>" by blast
    then show "\<bar>node_block st (xs ! k) - nextblock st\<bar> \<noteq> r" by simp
  qed
  from assms(6,7) have "r \<le> disk_scheduler_nblocks s st - 2" by simp
  with sstf_round_first[OF assms(1,2,3) d(1)[symmetric] least first]
  show ?thesis by blast
qed

theorem sstf_tie_queue_order_witness:
  "\<exists>st. example DISK_SCHEDULER_MODE_SSTF 16 (10, 1) [9, 11] = Inr st \<and>
      queue st 100 [2, 4] \<and> mode (schedulers st 100) = DISK_SCHEDULER_MODE_SSTF \<and>
      (0::nat) < length [2, 4::nat] \<and> (1::nat) < length [2, 4::nat] \<and> (0::nat) < 1 \<and>
      (0::int) < 1 \<and>
      (0 \<le> nextblock st - 1 \<and> nextblock st + 1 < disk_scheduler_nblocks 100 st) \<and>
      {node_block st ([2, 4] ! 0), node_block st ([2, 4] ! 1)} = {nextblock st + 1, nextblock st - 1} \<and>
      (\<forall>k<length [2, 4::nat]. k \<noteq> 0 \<and> k \<noteq> 1 \<longrightarrow> 1 < \<bar>node_block st ([2, 4] ! k) - nextblock st\<bar>) \<and>
      node_block st 2 = 9 \<and> node_block st 4 = 11 \<and> nextblock st = 10 \<and>
      (\<exists>st'. disk_scheduler_run 100 st = Some (Serviced 2 st') \<and> nextblock st' = 9 \<and>
              queue st' 100 [4])"
proof -
  have "\<exists>st. example DISK_SCHEDULER_MODE_SSTF 16 (10, 1) [9, 11] = Inr st \<and>
      queue st 100 [2, 4] \<and> mode (schedulers st 100) = DISK_SCHEDULER_MODE_SSTF \<and>
      (0 \<le> nextblock st - 1 \<and> nextblock st + 1 < disk_scheduler_nblocks 100 st) \<and>
      node_block st 2 = 9 \<and> node_block st 4 = 11 \<and> nextblock st = 10"
    by (simp add: example_defs queue_def numeral_eq_Suc)
  then obtain st where st: "example DISK_SCHEDULER_MODE_SSTF 16 (10, 1) [9, 11] = Inr st"
    "queue st 100 [2, 4]" "mode (schedulers st 100) = DISK_SCHEDULER_MODE_SSTF"
    "0 \<le> nextblock st - 1 \<and> nextblock st + 1 < disk_scheduler_nblocks 100 st"
    "node_block st 2 = 9" "node_block st 4 = 11" "nextblock st = 10"
    by (elim exE) blast
  have a: "(0::nat) < length [2, 4::nat]" "(1::nat) < length [2, 4::nat]" "(0::nat) < 1" "(0::int) < 1"
    by simp_all
  have b: "{node_block st ([2, 4] ! 0), node_block st ([2, 4] ! 1)} = {nextblock st + 1, nextblock st - 1}"
    using st(5,6,7) by auto
  have c: "\<forall>k<length [2, 4::nat]. k \<noteq> 0 \<and> k \<noteq> 1 \<longrightarrow> 1 < \<bar>node_block st ([2, 4] ! k) - nextblock st\<bar>"
    by (auto simp: less_Suc_eq)
  from sstf_tie_queue_order[OF st(2,3) a st(4) b c] st(5)
  have t: "\<exists>st'. disk_scheduler_run 100 st = Some (Serviced 2 st') \<and> nextblock st' = 9 \<and>
              queue st' 100 [4]" by simp
  show ?thesis
    by (intro exI[of _ st] conjI st a b c t)
qed


text \<open>
  C5.  One step of the SCAN sweep moves \<open>nextblock\<close> by one block in the direction
  \<open>nextdir\<close>; at block \<open>n - 1\<close> with direction 1 it stays on the block and turns to
  direction -1, at block 0 with direction -1 it stays and turns to direction 1.  A round
  in SCAN mode repeats the step from the cursor the last round left until some request of
  the list is for the block reached, services the first such request of the list, and
  leaves the cursor there.  With 16 blocks, the cursor at block 14 with direction 1 and
  requests for the blocks 0 and 15 (written in either order), the first round services
  block 15 and the second one block 0.
\<close>

theorem scan_sweep:
  assumes "1 \<le> n" and "0 \<le> b" and "b \<le> n - 1"
    and "queue st s xs" and "mode (schedulers st s) = DISK_SCHEDULER_MODE_SCAN"
    and "j < length xs"
    and "node_block st (xs ! j) =
           fst ((scan_advance (disk_scheduler_nblocks s st) ^^ k) (nextblock st, nextdir st))"
    and "\<forall>i<j. node_block st (xs ! i) \<noteq>
           fst ((scan_advance (disk_scheduler_nblocks s st) ^^ k) (nextblock st, nextdir st))"
    and "\<forall>m<k. \<forall>i<length xs. node_block st (xs ! i) \<noteq>
           fst ((scan_advance (disk_scheduler_nblocks s st) ^^ m) (nextblock st, nextdir st))"
  shows "scan_advance n (b, 1) = (if b < n - 1 then (b + 1, 1) else (n - 1, -1)) \<and>
         scan_advance n (b, -1) = (if 0 < b then (b - 1, -1) else (0, 1)) \<and>
         (\<exists>st'. disk_scheduler_run s st = Some (Serviced (xs ! j) st') \<and>
            (nextblock st', nextdir st') =
              (scan_advance (disk_scheduler_nblocks s st) ^^ k) (nextblock st, nextdir st)) \<and>
         (\<forall>bs\<in>set [[0, 15], [15, 0]].
            example_order DISK_SCHEDULER_MODE_SCAN 16 (14, 1) bs 2 =
              Inr (Some [(15, 15, 1), (0, 0, -1)]))"
proof (intro conjI)
  show "scan_advance n (b, 1) = (if b < n - 1 then (b + 1, 1) else (n - 1, -1))"
    by (rule scan_advance_cases(1)[OF assms(1,2,3)])
  show "scan_advance n (b, -1) = (if 0 < b then (b - 1, -1) else (0, 1))"
    by (rule scan_advance_cases(2)[OF assms(1,2,3)])
  from scan_round_finds[OF assms(4,5,6,7,8,9)]
  show "\<exists>st'. disk_scheduler_run s st = Some (Serviced (xs ! j) st') \<and>
            (nextblock st', nextdir st') =
              (scan_advance (disk_scheduler_nblocks s st) ^^ k) (nextblock st, nextdir st)"
    by blast
  show "\<forall>bs\<in>set [[0, 15], [15, 0]].
            example_order DISK_SCHEDULER_MODE_SCAN 16 (14, 1) bs 2 =
              Inr (Some [(15, 15, 1), (0, 0, -1)])"
    by (simp add: example_defs scan_loop.simps numeral_eq_Suc)
qed

theorem scan_sweep_witness:
  "\<exists>st. example DISK_SCHEDULER_MODE_SCAN 16 (14, 1) [0, 15] = Inr st \<and>
     (1::int) \<le> 16 \<and> (0::int) \<le> 15 \<and> (15::int) \<le> 16 - 1 \<and>
     queue st 100 [2, 4] \<and> mode (schedulers st 100) = DISK_SCHEDULER_MODE_SCAN \<and>
     (1::nat) < length [2, 4::nat] \<and>
     disk_scheduler_nblocks 100 st = 16 \<and> nextblock st = 14 \<and> nextdir st = 1 \<and>
     node_block st 2 = 0 \<and> node_block st 4 = 15 \<and>
     (scan_advance 16 ^^ 1) (14, 1) = (15, 1) \<and>
     scan_advance 16 (15, 1) = (15, -1) \<and> scan_advance 16 (15, -1) = (14, -1) \<and>
     (\<exists>st'. disk_scheduler_run 100 st = Some (Serviced 4 st') \<and>
             (nextblock st', nextdir st') = (15, 1)) \<and>
     example_order DISK_SCHEDULER_MODE_SCAN 16 (14, 1) [0, 15] 2 =
       Inr (Some [(15, 15, 1), (0, 0, -1)])"
proof -
  have "\<exists>st. example DISK_SCHEDULER_MODE_SCAN 16 (14, 1) [0, 15] = Inr st \<and>
     queue st 100 [2, 4] \<and> mode (schedulers st 100) = DISK_SCHEDULER_MODE_SCAN \<and>
     disk_scheduler_nblocks 100 st = 16 \<and> nextblock st = 14 \<and> nextdir st = 1 \<and>
     node_block st 2 = 0 \<and> node_block st 4 = 15"
    by (simp add: example_defs queue_def numeral_eq_Suc)
  then obtain st where st: "example DISK_SCHEDULER_MODE_SCAN 16 (14, 1) [0, 15] = Inr st"
     "queue st 100 [2, 4]" "mode (schedulers st 100) = DISK_SCHEDULER_MODE_SCAN"
     "disk_scheduler_nblocks 100 st = 16" "nextblock st = 14" "nextdir st = 1"
     "node_block st 2 = 0" "node_block st 4 = 15"
    by (elim exE conjE)
  have a: "(1::int) \<le> 16" "(0::int) \<le> 15" "(15::int) \<le> 16 - 1" "(1::nat) < length [2, 4::nat]"
    by simp_all
  have p: "(scan_advance 16 ^^ 1) (14, 1) = (15, 1)"
    by (simp add: scan_advance_def)
  have f: "node_block st ([2, 4] ! 1) =
           fst ((scan_advance (disk_scheduler_nblocks 100 st) ^^ 1) (nextblock st, nextdir st))"
    using st p by simp
  have g: "\<forall>i<1. node_block st ([2, 4] ! i) \<noteq>
           fst ((scan_advance (disk_scheduler_nblocks 100 st) ^^ 1) (nextblock st, nextdir st))"
    using st p by simp
  have h: "\<forall>m<1. \<forall>i<length [2, 4::nat]. node_block st ([2, 4] ! i) \<noteq>
           fst ((scan_advance (disk_scheduler_nblocks 100 st) ^^ m) (nextblock st, nextdir st))"
    using st by (simp add: less_Suc_eq)
  note T = scan_sweep[OF a(1,2,3) st(2,3) a(4) f g h]
  from T have t1: "scan_advance 16 (15, 1) = (15, -1)" "scan_advance 16 (15, -1) = (14, -1)"
    by simp_all
  from T st p have t2: "\<exists>st'. disk_scheduler_run 100 st = Some (Serviced 4 st') \<and>
             (nextblock st', nextdir st') = (15, 1)" by simp
  from T have t3: "example_order DISK_SCHEDULER_MODE_SCAN 16 (14, 1) [0, 15] 2 =
       Inr (Some [(15, 15, 1), (0, 0, -1)])" by simp
  show ?thesis
    by (intro exI[of _ st] conjI st a p t1 t2 t3)
qed


text \<open>
  C10, as stated, fails: \<open>nextdir\<close> is shared with the SSTF branch, which keeps its search
  radius in it.  After an SSTF scheduler has serviced a request for block 3 from block 0
  (radius 3), the round of a SCAN scheduler with a request for block 6 steps by 3 blocks
  and ends with \<open>nextblock = 6\<close> and \<open>nextdir = 3\<close>.
\<close>

theorem scan_cursor_counterexample:
  "two_schedulers DISK_SCHEDULER_MODE_SSTF [3] DISK_SCHEDULER_MODE_SCAN [6] 1 1 =
     Inr (Some [(3, 3, 3)], Some [(6, 6, 3)])"
  by (simp add: example_defs sstf_loop.simps scan_loop.simps numeral_eq_Suc)

text \<open>
  C10, amended.  A process starts with \<open>nextblock = 0\<close> and \<open>nextdir = 1\<close>; \<open>s\<close> is a SCAN
  scheduler whose disk has at least one block.  As long as the rounds that run in the
  process are rounds of FIFO schedulers and rounds of SCAN schedulers whose disk has at
  least one block and at most as many blocks as the disk of \<open>s\<close> (the rounds of \<open>s\<close> among
  them), in every state
  reached, after every enqueue and after every round, \<open>nextblock\<close> is a block of the disk
  of \<open>s\<close> and \<open>nextdir\<close> is 1 or -1.
\<close>

theorem scan_cursor_in_range:
  assumes "scan_process s st" and "1 \<le> disk_scheduler_nblocks s st"
  shows "0 \<le> nextblock st \<and> nextblock st \<le> disk_scheduler_nblocks s st - 1 \<and>
         (nextdir st = 1 \<or> nextdir st = -1)"
  using scan_process_inv[OF assms(1)] assms(2) by (simp add: cursor_ok_def)

theorem scan_cursor_in_range_witness:
  "\<exists>st st1 st2.
     two_schedulers_state DISK_SCHEDULER_MODE_FIFO [9] DISK_SCHEDULER_MODE_SCAN [15, 3] = Inr st \<and>
     disk_scheduler_run 100 st = Some (Serviced 2 st1) \<and>
     disk_scheduler_run 200 st1 = Some (Serviced 6 st2) \<and>
     scan_process 200 st2 \<and> 1 \<le> disk_scheduler_nblocks 200 st2 \<and>
     disk_scheduler_nblocks 200 st2 = 16 \<and>
     0 \<le> nextblock st2 \<and> nextblock st2 \<le> 15 \<and> (nextdir st2 = 1 \<or> nextdir st2 = -1)"
proof -
  have "\<exists>st st1 st2.
     two_schedulers_state DISK_SCHEDULER_MODE_FIFO [9] DISK_SCHEDULER_MODE_SCAN [15, 3] = Inr st \<and>
     nextblock st = 0 \<and> nextdir st = 1 \<and>
     mode (schedulers st 200) = DISK_SCHEDULER_MODE_SCAN \<and>
     mode (schedulers st 100) = DISK_SCHEDULER_MODE_FIFO \<and>
     disk_scheduler_run 100 st = Some (Serviced 2 st1) \<and>
     mode (schedulers st1 200) = DISK_SCHEDULER_MODE_SCAN \<and>
     disk_scheduler_nblocks 200 st1 = 16 \<and>
     disk_scheduler_run 200 st1 = Some (Serviced 6 st2) \<and>
     disk_scheduler_nblocks 200 st2 = 16"
    by (simp add: example_defs scan_loop.simps numeral_eq_Suc)
  then obtain st st1 st2 where
    e: "two_schedulers_state DISK_SCHEDULER_MODE_FIFO [9] DISK_SCHEDULER_MODE_SCAN [15, 3] = Inr st"
    and c: "nextblock st = 0" "nextdir st = 1"
      "mode (schedulers st 200) = DISK_SCHEDULER_MODE_SCAN"
    and m: "mode (schedulers st 100) = DISK_SCHEDULER_MODE_FIFO"
    and r1: "disk_scheduler_run 100 st = Some (Serviced 2 st1)"
    and m1: "mode (schedulers st1 200) = DISK_SCHEDULER_MODE_SCAN"
      "disk_scheduler_nblocks 200 st1 = 16"
    and r2: "disk_scheduler_run 200 st1 = Some (Serviced 6 st2)"
    and n: "disk_scheduler_nblocks 200 st2 = 16"
    by (elim exE conjE)
  have p0: "scan_process 200 st" using c by (rule scan_process.at_start)
  have p1: "scan_process 200 st1"
    using p0 r1 m by (intro scan_process.after_round[of 200 st 100 2 st1]) simp_all
  have p: "scan_process 200 st2"
    using p1 r2 m1 by (intro scan_process.after_round[of 200 st1 200 6 st2]) simp_all
  from n have n1: "1 \<le> disk_scheduler_nblocks 200 st2" by simp
  from scan_cursor_in_range[OF p n1] n
  have t: "0 \<le> nextblock st2" "nextblock st2 \<le> 15" "nextdir st2 = 1 \<or> nextdir st2 = -1"
    by simp_all
  show ?thesis
    by (intro exI[of _ st] exI[of _ st1] exI[of _ st2] conjI e r1 r2 p n1 n t)
qed




text \<open>
  C4, as stated, fails: \<open>nextblock\<close> and \<open>nextdir\<close> are globals of the process.  Of two SCAN
  schedulers with the disjoint requests 5 and 2, 7, the second one alone services block
  2 and then block 7; after one round of the first scheduler, which leaves the cursor at
  block 5, it services block 7 and then block 2.
\<close>

theorem cursor_isolation_counterexample:
  "two_schedulers DISK_SCHEDULER_MODE_SCAN [5] DISK_SCHEDULER_MODE_SCAN [2, 7] 0 2 =
     Inr (Some [], Some [(2, 2, 1), (7, 7, 1)]) \<and>
   two_schedulers DISK_SCHEDULER_MODE_SCAN [5] DISK_SCHEDULER_MODE_SCAN [2, 7] 1 2 =
     Inr (Some [(5, 5, 1)], Some [(7, 7, 1), (2, 2, -1)])"
  by (simp add: example_defs scan_loop.simps numeral_eq_Suc)

text \<open>
  C4, amended.  A round of one scheduler leaves the fields of every other scheduler, the
  list of the other scheduler and the blocks of its requests unchanged; the cursor is
  shared: a FIFO round leaves \<open>nextblock\<close> and \<open>nextdir\<close> as they were, and an SSTF or SCAN
  round leaves in \<open>nextblock\<close> the block it serviced, from where the next round of any
  scheduler starts.
\<close>

theorem cursor_process_wide:
  assumes "s' \<noteq> s" and "queue st s xs" and "queue st s' xs'" and "set xs \<inter> set xs' = {}"
    and "disk_scheduler_run s st = Some (Serviced c st')"
  shows "schedulers st' s' = schedulers st s' \<and> queue st' s' xs' \<and>
         (\<forall>a\<in>set xs'. node_block st' a = node_block st a) \<and>
         (mode (schedulers st s) = DISK_SCHEDULER_MODE_FIFO \<longrightarrow>
            nextblock st' = nextblock st \<and> nextdir st' = nextdir st) \<and>
         (mode (schedulers st s) \<noteq> DISK_SCHEDULER_MODE_FIFO \<longrightarrow>
            nextblock st' = node_block st c)"
  using disk_scheduler_run_other[OF assms(2,3,1,4,5)] disk_scheduler_run_serviced[OF assms(2,5)]
  by blast

theorem cursor_process_wide_witness:
  "\<exists>st st'. two_schedulers_state DISK_SCHEDULER_MODE_SCAN [5] DISK_SCHEDULER_MODE_SCAN [2, 7] = Inr st \<and>
     (200::nat) \<noteq> 100 \<and> queue st 100 [2] \<and> queue st 200 [4, 6] \<and> set [2::nat] \<inter> set [4, 6] = {} \<and>
     disk_scheduler_run 100 st = Some (Serviced 2 st') \<and>
     mode (schedulers st 100) \<noteq> DISK_SCHEDULER_MODE_FIFO \<and> node_block st 2 = 5 \<and>
     nextblock st = 0 \<and> nextblock st' = 5 \<and>
     schedulers st' 200 = schedulers st 200 \<and> queue st' 200 [4, 6]"
proof -
  have "\<exists>st. two_schedulers_state DISK_SCHEDULER_MODE_SCAN [5] DISK_SCHEDULER_MODE_SCAN [2, 7] = Inr st \<and>
     queue st 100 [2] \<and> queue st 200 [4, 6] \<and>
     mode (schedulers st 100) \<noteq> DISK_SCHEDULER_MODE_FIFO \<and> node_block st 2 = 5 \<and>
     nextblock st = 0 \<and> (\<exists>st'. disk_scheduler_run 100 st = Some (Serviced 2 st'))"
    by (simp add: example_defs queue_def scan_loop.simps numeral_eq_Suc)
  then obtain st st' where
    st: "two_schedulers_state DISK_SCHEDULER_MODE_SCAN [5] DISK_SCHEDULER_MODE_SCAN [2, 7] = Inr st"
    and q: "queue st 100 [2]" "queue st 200 [4, 6]"
    and m: "mode (schedulers st 100) \<noteq> DISK_SCHEDULER_MODE_FIFO" "node_block st 2 = 5"
      "nextblock st = 0"
    and r: "disk_scheduler_run 100 st = Some (Serviced 2 st')"
    by (elim exE conjE)
  have a: "(200::nat) \<noteq> 100" "set [2::nat] \<inter> set [4, 6] = {}" by simp_all
  note T = cursor_process_wide[OF a(1) q a(2) r]
  from T m have t: "nextblock st' = 5" "schedulers st' 200 = schedulers st 200"
    "queue st' 200 [4, 6]" by simp_all
  show ?thesis
    by (intro exI[of _ st] exI[of _ st'] conjI st a q r m t)
qed

text \<open>
  C8.  \<open>disk_scheduler_create\<close> returns the null pointer exactly when \<open>malloc\<close> or
  \<open>disk_create\<close> returns null.  When \<open>malloc\<close> fails the state is unchanged; when
  \<open>disk_create\<close> fails the scheduler object is freed again and nothing else has changed.
  On success the new scheduler has the disk and the mode given and null \<open>head\<close> and \<open>tail\<close>,
  an empty list.  No operation changes the mode of a scheduler afterwards.
\<close>

theorem disk_scheduler_create_result:
  "(fst (disk_scheduler_create m dc f n md st) = None) = (m = None \<or> dc f n = None) \<and>
   (m = None \<longrightarrow> snd (disk_scheduler_create m dc f n md st) = st) \<and>
   (\<forall>s. m = Some s \<and> dc f n = None \<longrightarrow>
      s \<notin> allocated (snd (disk_scheduler_create m dc f n md st)) \<and>
      snd (disk_scheduler_create m dc f n md st) = st\<lparr>allocated := allocated st - {s}\<rparr>) \<and>
   (\<forall>s dk. m = Some s \<and> dc f n = Some dk \<longrightarrow>
      fst (disk_scheduler_create m dc f n md st) = Some s \<and>
      s \<in> allocated (snd (disk_scheduler_create m dc f n md st)) \<and>
      schedulers (snd (disk_scheduler_create m dc f n md st)) s =
        \<lparr> disk = dk, mode = md, head = None, tail = None \<rparr> \<and>
      queue (snd (disk_scheduler_create m dc f n md st)) s []) \<and>
   (disk_scheduler_write m1 m2 s1 b dt st = Inr st1 \<longrightarrow>
      mode (schedulers st1 s0) = mode (schedulers st s0)) \<and>
   (disk_scheduler_read m1 m2 s1 b dt st = Inr st2 \<longrightarrow>
      mode (schedulers st2 s0) = mode (schedulers st s0)) \<and>
   (disk_scheduler_run s1 st = Some (Serviced c st3) \<longrightarrow>
      mode (schedulers st3 s0) = mode (schedulers st s0))"
proof (intro conjI allI impI)
  show "(fst (disk_scheduler_create m dc f n md st) = None) = (m = None \<or> dc f n = None)"
    by (simp add: disk_scheduler_create_def Let_def split: option.splits)
  show "snd (disk_scheduler_create m dc f n md st) = st" if "m = None"
    using that by (simp add: disk_scheduler_create_def)
  show "s \<notin> allocated (snd (disk_scheduler_create m dc f n md st))" if "m = Some s \<and> dc f n = None" for s
    using that by (simp add: disk_scheduler_create_def)
  show "snd (disk_scheduler_create m dc f n md st) = st\<lparr>allocated := allocated st - {s}\<rparr>"
    if "m = Some s \<and> dc f n = None" for s
    using that by (simp add: disk_scheduler_create_def)
  show "fst (disk_scheduler_create m dc f n md st) = Some s" if "m = Some s \<and> dc f n = Some dk" for s dk
    using that by (simp add: disk_scheduler_create_def)
  show "s \<in> allocated (snd (disk_scheduler_create m dc f n md st))" if "m = Some s \<and> dc f n = Some dk" for s dk
    using that by (simp add: disk_scheduler_create_def)
  show "schedulers (snd (disk_scheduler_create m dc f n md st)) s =
        \<lparr> disk = dk, mode = md, head = None, tail = None \<rparr>" if "m = Some s \<and> dc f n = Some dk" for s dk
    using that by (simp add: disk_scheduler_create_def)
  show "queue (snd (disk_scheduler_create m dc f n md st)) s []" if "m = Some s \<and> dc f n = Some dk" for s dk
    using that by (simp add: disk_scheduler_create_def queue_def)
  show "mode (schedulers st1 s0) = mode (schedulers st s0)"
    if "disk_scheduler_write m1 m2 s1 b dt st = Inr st1"
    using disk_scheduler_write_frame[OF that] by simp
  show "mode (schedulers st2 s0) = mode (schedulers st s0)"
    if "disk_scheduler_read m1 m2 s1 b dt st = Inr st2"
    using disk_scheduler_read_frame[OF that] by simp
  show "mode (schedulers st3 s0) = mode (schedulers st s0)"
    if "disk_scheduler_run s1 st = Some (Serviced c st3)"
    using disk_scheduler_run_frame[OF that] by simp
qed


theorem disk_scheduler_create_result_witness:
  "fst (disk_scheduler_create None disk_create_ok ''disk'' 16 DISK_SCHEDULER_MODE_SCAN initial_state) = None \<and>
   fst (disk_scheduler_create (Some 100) (\<lambda>f n. None) ''disk'' 16 DISK_SCHEDULER_MODE_SCAN initial_state)
     = None \<and>
   100 \<notin> allocated (snd (disk_scheduler_create (Some 100) (\<lambda>f n. None) ''disk'' 16
                              DISK_SCHEDULER_MODE_SCAN initial_state)) \<and>
   fst (disk_scheduler_create (Some 100) disk_create_ok ''disk'' 16 DISK_SCHEDULER_MODE_SCAN initial_state)
     = Some 100 \<and>
   schedulers (snd (disk_scheduler_create (Some 100) disk_create_ok ''disk'' 16
                      DISK_SCHEDULER_MODE_SCAN initial_state)) 100 =
     \<lparr> disk = \<lparr> nblocks = 16 \<rparr>, mode = DISK_SCHEDULER_MODE_SCAN, head = None, tail = None \<rparr> \<and>
   (\<exists>st1. disk_scheduler_write (Some 1) (Some 2) 100 5 0
            (snd (disk_scheduler_create (Some 100) disk_create_ok ''disk'' 16
                    DISK_SCHEDULER_MODE_SCAN initial_state)) = Inr st1 \<and>
          mode (schedulers st1 100) = DISK_SCHEDULER_MODE_SCAN)"
proof -
  let ?no = "\<lambda>(f::string) (n::int). None :: disk option"
  let ?st = "snd (disk_scheduler_create (Some 100) disk_create_ok ''disk'' 16
                    DISK_SCHEDULER_MODE_SCAN initial_state)"
  have "\<exists>st1. disk_scheduler_write (Some 1) (Some 2) 100 5 0 ?st = Inr st1"
    by (simp add: example_defs)
  then obtain st1 where w: "disk_scheduler_write (Some 1) (Some 2) 100 5 0 ?st = Inr st1" ..
  have ok: "disk_create_ok ''disk'' 16 = Some \<lparr> nblocks = 16 \<rparr>"
    by (simp add: disk_create_ok_def)
  note A = disk_scheduler_create_result[of None disk_create_ok "''disk''" 16
             DISK_SCHEDULER_MODE_SCAN initial_state]
  note B = disk_scheduler_create_result[of "Some 100" ?no "''disk''" 16
             DISK_SCHEDULER_MODE_SCAN initial_state]
  note C = disk_scheduler_create_result[of "Some 100" disk_create_ok "''disk''" 16
             DISK_SCHEDULER_MODE_SCAN initial_state]
  note D = disk_scheduler_create_result[of None ?no "''disk''" 16 DISK_SCHEDULER_MODE_SCAN ?st
             "Some 1" "Some 2" 100 5 0 st1 100]
  from A have a: "fst (disk_scheduler_create None disk_create_ok ''disk'' 16
                         DISK_SCHEDULER_MODE_SCAN initial_state) = None"
    by blast
  from B have b: "fst (disk_scheduler_create (Some 100) ?no ''disk'' 16
                         DISK_SCHEDULER_MODE_SCAN initial_state) = None"
    "100 \<notin> allocated (snd (disk_scheduler_create (Some 100) ?no ''disk'' 16
                                DISK_SCHEDULER_MODE_SCAN initial_state))"
    by blast+
  from C ok have c: "fst (disk_scheduler_create (Some 100) disk_create_ok ''disk'' 16
                            DISK_SCHEDULER_MODE_SCAN initial_state) = Some 100"
    "schedulers ?st 100 =
       \<lparr> disk = \<lparr> nblocks = 16 \<rparr>, mode = DISK_SCHEDULER_MODE_SCAN, head = None, tail = None \<rparr>"
    by blast+
  from D w c(2) have "mode (schedulers st1 100) = DISK_SCHEDULER_MODE_SCAN" by simp
  with w have d: "\<exists>st1. disk_scheduler_write (Some 1) (Some 2) 100 5 0 ?st = Inr st1 \<and>
          mode (schedulers st1 100) = DISK_SCHEDULER_MODE_SCAN" by blast
  show ?thesis
    by (intro conjI a b c d)
qed

end
